theory Spec2Isabelle
  imports Complex_Main "HOL-Library.Word" "HOL-Library.Monad_Syntax"
begin

section \<open>Data model\<close>

text \<open>
  The program (\<^verbatim>\<open>example01.cpp\<close>) is one host routine \<^verbatim>\<open>main\<close>, one host
  function \<^verbatim>\<open>timeAddVectorsCPU\<close> and two OpenCL kernels, \<^verbatim>\<open>looped_add\<close> and
  \<^verbatim>\<open>add\<close>, embedded as a string.

  An \<^verbatim>\<open>int\<close> stored in an array is a 32-bit word; adding two array elements wraps
  modulo \<open>2 ^ 32\<close>. Loop counters, sizes and the index arithmetic of the kernels are
  mathematical integers: every value they take is bounded by the vector length or the
  number of work-items, so no wrap-around can be observed there (lemma
  \<open>start_stop_in_int_range\<close>).

  An access outside an array is undefined behaviour in the source; in the model it is
  the result \<open>None\<close>.
\<close>

type_synonym cint = "32 word"

definition load :: "cint list \<Rightarrow> int \<Rightarrow> cint option" where
  "load v j = (if 0 \<le> j \<and> j < int (length v) then Some (v ! nat j) else None)"

definition store :: "cint list \<Rightarrow> int \<Rightarrow> cint \<Rightarrow> cint list option" where
  "store v j x = (if 0 \<le> j \<and> j < int (length v) then Some (v[nat j := x]) else None)"

text \<open>Integer division of C and OpenCL C truncates towards zero.\<close>

definition cdiv :: "int \<Rightarrow> int \<Rightarrow> int" where
  "cdiv a b = sgn a * sgn b * (\<bar>a\<bar> div \<bar>b\<bar>)"

text \<open>
  A \<^verbatim>\<open>double\<close> (and a \<^verbatim>\<open>float\<close>, which is one after promotion) is not a
  number, an infinity, or a finite value. Only the comparison with 1 is computed on this
  type; the arithmetic that rounds (the division, the conversion to \<^verbatim>\<open>float\<close>) is
  taken from the environment of the run.
\<close>

datatype double = NaN | PlusInf | MinusInf | Finite real

text \<open>\<^verbatim>\<open>x > 1\<close>: false when \<open>x\<close> is not a number.\<close>

fun exceeds_one :: "double \<Rightarrow> bool" where
  "exceeds_one NaN = False"
| "exceeds_one PlusInf = True"
| "exceeds_one MinusInf = False"
| "exceeds_one (Finite x) = (1 < x)"

section \<open>The kernels\<close>

text \<open>
  Both kernels compute the same index range from the vector length \<open>n\<close>, the number of
  work-items \<open>Nthreads\<close> (\<^verbatim>\<open>get_global_size(0)\<close>) and the work-item's own number
  \<open>ID\<close> (\<^verbatim>\<open>get_global_id(0)\<close>):
  \<^verbatim>\<open>ratio = (n / Nthreads); start = ratio * ID; stop = ratio * (ID+1);\<close>
\<close>

definition ratio :: "int \<Rightarrow> int \<Rightarrow> int" where
  "ratio n Nthreads = cdiv n Nthreads"

definition start :: "int \<Rightarrow> int \<Rightarrow> int \<Rightarrow> int" where
  "start n Nthreads ID = ratio n Nthreads * ID"

definition stop :: "int \<Rightarrow> int \<Rightarrow> int \<Rightarrow> int" where
  "stop n Nthreads ID = ratio n Nthreads * (ID + 1)"

text \<open>
  The inner loop of both kernels,
  \<^verbatim>\<open>for (j=start; j<stop; j++) v3[j] = v1[j] + v2[j];\<close>
  with \<open>j\<close> the current value of the counter.
\<close>

function add_range :: "cint list \<Rightarrow> cint list \<Rightarrow> int \<Rightarrow> int \<Rightarrow> cint list \<Rightarrow> cint list option" where
  "add_range v1 v2 j stp v3 =
     (if j < stp then
        (case load v1 j of
           None \<Rightarrow> None
         | Some a \<Rightarrow>
             (case load v2 j of
                None \<Rightarrow> None
              | Some b \<Rightarrow>
                  (case store v3 j (a + b) of
                     None \<Rightarrow> None
                   | Some v3' \<Rightarrow> add_range v1 v2 (j + 1) stp v3')))
      else Some v3)"
  by pat_completeness auto
termination
  by (relation "measure (\<lambda>(v1, v2, j, stp, v3). nat (stp - j))") auto

text \<open>
  The outer loop of \<^verbatim>\<open>looped_add\<close>,
  \<^verbatim>\<open>for (i=0; i<k; i++) { for (j=start; j<stop; j++) v3[j] = v1[j] + v2[j]; }\<close>
\<close>

function looped_passes :: "cint list \<Rightarrow> cint list \<Rightarrow> int \<Rightarrow> int \<Rightarrow> int \<Rightarrow> int \<Rightarrow> cint list \<Rightarrow> cint list option" where
  "looped_passes v1 v2 strt stp i k v3 =
     (if i < k then
        (case add_range v1 v2 strt stp v3 of
           None \<Rightarrow> None
         | Some v3' \<Rightarrow> looped_passes v1 v2 strt stp (i + 1) k v3')
      else Some v3)"
  by pat_completeness auto
termination
  by (relation "measure (\<lambda>(v1, v2, strt, stp, i, k, v3). nat (k - i))") auto

text \<open>
  One work-item of each kernel. The four arguments are the contents of four distinct
  buffers, as in both launches of \<^verbatim>\<open>main\<close>; the result is the new content of
  \<open>v3\<close>. A division by a global size of zero is undefined.
\<close>

definition looped_add :: "int \<Rightarrow> int \<Rightarrow> cint list \<Rightarrow> cint list \<Rightarrow> cint list \<Rightarrow> cint list \<Rightarrow> cint list option" where
  "looped_add ID Nthreads v1 v2 v3 constants =
     (case load constants 0 of
        None \<Rightarrow> None
      | Some n \<Rightarrow>
          (case load constants 1 of
             None \<Rightarrow> None
           | Some k \<Rightarrow>
               if Nthreads = 0 then None
               else looped_passes v1 v2
                      (start (sint n) Nthreads ID) (stop (sint n) Nthreads ID) 0 (sint k) v3))"

definition add :: "int \<Rightarrow> int \<Rightarrow> cint list \<Rightarrow> cint list \<Rightarrow> cint list \<Rightarrow> cint list \<Rightarrow> cint list option" where
  "add ID Nthreads v1 v2 v3 constants =
     (case load constants 0 of
        None \<Rightarrow> None
      | Some n \<Rightarrow>
          if Nthreads = 0 then None
          else add_range v1 v2 (start (sint n) Nthreads ID) (stop (sint n) Nthreads ID) v3)"

text \<open>
  A launch over \<^verbatim>\<open>cl::NDRange(Nthreads)\<close> runs the kernel once for every
  \<open>ID\<close> in \<open>[0, Nthreads)\<close>. The work-items are run here one after the other in
  ascending order (any other order gives the same, lemma \<open>run_in_any_order\<close>).
\<close>

function run_work_items :: "(int \<Rightarrow> cint list \<Rightarrow> cint list option) \<Rightarrow> int \<Rightarrow> int \<Rightarrow> cint list \<Rightarrow> cint list option" where
  "run_work_items body ID Nthreads v3 =
     (if ID < Nthreads then
        (case body ID v3 of
           None \<Rightarrow> None
         | Some v3' \<Rightarrow> run_work_items body (ID + 1) Nthreads v3')
      else Some v3)"
  by pat_completeness auto
termination
  by (relation "measure (\<lambda>(body, ID, Nthreads, v3). nat (Nthreads - ID))") auto

datatype kernel = Looped_add | Add

fun kernel_body :: "kernel \<Rightarrow> int \<Rightarrow> int \<Rightarrow> cint list \<Rightarrow> cint list \<Rightarrow> cint list \<Rightarrow> cint list \<Rightarrow> cint list option" where
  "kernel_body Looped_add = looped_add"
| "kernel_body Add = add"

definition run_kernel :: "kernel \<Rightarrow> int \<Rightarrow> cint list \<Rightarrow> cint list \<Rightarrow> cint list \<Rightarrow> cint list \<Rightarrow> cint list option" where
  "run_kernel kern Nthreads v1 v2 v3 constants =
     run_work_items (\<lambda>ID v. kernel_body kern ID Nthreads v1 v2 v constants) 0 Nthreads v3"

section \<open>The host\<close>

subsection \<open>Arrays on the stack\<close>

text \<open>
  A variable-length array \<^verbatim>\<open>int A[n]\<close> starts with indeterminate contents:
  \<open>indet i\<close> stands for whatever cell \<open>i\<close> of fresh memory holds.
\<close>

definition fresh :: "(nat \<Rightarrow> cint) \<Rightarrow> nat \<Rightarrow> cint list" where
  "fresh indet len = map indet [0..<len]"

subsection \<open>timeAddVectorsCPU\<close>

text \<open>
  \<^verbatim>\<open>for (int i=0; i<n; i++) { A[i] = i; B[i] = n-i; C[i] = 0; }\<close>
\<close>

function cpu_construct :: "int \<Rightarrow> int \<Rightarrow> cint list \<Rightarrow> cint list \<Rightarrow> cint list \<Rightarrow> (cint list \<times> cint list \<times> cint list) option" where
  "cpu_construct i n A B C =
     (if i < n then
        do {
          A' \<leftarrow> store A i (word_of_int i);
          B' \<leftarrow> store B i (word_of_int (n - i));
          C' \<leftarrow> store C i 0;
          cpu_construct (i + 1) n A' B' C'
        }
      else Some (A, B, C))"
  by pat_completeness auto
termination
  by (relation "measure (\<lambda>(i, n, A, B, C). nat (n - i))") auto

text \<open>
  \<^verbatim>\<open>for (int j=0; j<n; j++) { C[j] = A[j] + B[j]; }\<close>
\<close>

function cpu_inner :: "cint list \<Rightarrow> cint list \<Rightarrow> int \<Rightarrow> int \<Rightarrow> cint list \<Rightarrow> cint list option" where
  "cpu_inner A B j n C =
     (if j < n then
        do {
          a \<leftarrow> load A j;
          b \<leftarrow> load B j;
          C' \<leftarrow> store C j (a + b);
          cpu_inner A B (j + 1) n C'
        }
      else Some C)"
  by pat_completeness auto
termination
  by (relation "measure (\<lambda>(A, B, j, n, C). nat (n - j))") auto

text \<open>
  \<^verbatim>\<open>for (int i=0; i<k; i++) { for (int j=0; j<n; j++) { ... } }\<close>
\<close>

function cpu_outer :: "cint list \<Rightarrow> cint list \<Rightarrow> int \<Rightarrow> int \<Rightarrow> int \<Rightarrow> cint list \<Rightarrow> cint list option" where
  "cpu_outer A B i k n C =
     (if i < k then
        do {
          C' \<leftarrow> cpu_inner A B 0 n C;
          cpu_outer A B (i + 1) k n C'
        }
      else Some C)"
  by pat_completeness auto
termination
  by (relation "measure (\<lambda>(A, B, i, k, n, C). nat (k - i))") auto

text \<open>
  The arrays of \<^verbatim>\<open>timeAddVectorsCPU(n, k)\<close> when it returns. An array of no
  positive length is undefined.
\<close>

definition timeAddVectorsCPU_arrays :: "(nat \<Rightarrow> cint) \<Rightarrow> int \<Rightarrow> int \<Rightarrow> (cint list \<times> cint list \<times> cint list) option" where
  "timeAddVectorsCPU_arrays indet n k =
     (if n \<le> 0 then None
      else do {
        (A, B, C) \<leftarrow> cpu_construct 0 n (fresh indet (nat n)) (fresh indet (nat n)) (fresh indet (nat n));
        C' \<leftarrow> cpu_outer A B 0 k n C;
        Some (A, B, C')
      })"

text \<open>
  The function returns the duration its two readings of \<^verbatim>\<open>std::clock()\<close> give;
  \<open>duration\<close> is that value.
\<close>

definition timeAddVectorsCPU :: "(nat \<Rightarrow> cint) \<Rightarrow> double \<Rightarrow> int \<Rightarrow> int \<Rightarrow> double option" where
  "timeAddVectorsCPU indet duration n k =
     do {
       _ \<leftarrow> timeAddVectorsCPU_arrays indet n k;
       Some duration
     }"

subsection \<open>The device\<close>

text \<open>
  The buffers are the \<^verbatim>\<open>cl::Buffer\<close> variables of \<^verbatim>\<open>main\<close>. The device is
  the content of each buffer that exists, and the commands the host has issued, in order.
  Sizes and offsets count \<^verbatim>\<open>int\<close>s. A write and a read carry the blocking flag
  the host passes; a kernel functor call takes the four buffers only.
\<close>

datatype buffer =
    buffer_A | buffer_B | buffer_C | buffer_constants
  | buffer_A2 | buffer_B2 | buffer_C2 | buffer_constants2

datatype command =
    CreateBuffer buffer nat
  | WriteBuffer buffer bool nat nat
  | NDRangeKernel kernel "buffer list" int
  | ReadBuffer buffer bool nat nat

record device =
  mem :: "buffer \<Rightarrow> cint list option"
  issued :: "command list"

definition no_device :: device where
  "no_device = \<lparr>mem = (\<lambda>b. None), issued = []\<rparr>"

text \<open>\<^verbatim>\<open>cl::Buffer b(context, flags, sizeof(int) * len)\<close>\<close>

definition Buffer :: "(nat \<Rightarrow> cint) \<Rightarrow> buffer \<Rightarrow> nat \<Rightarrow> device \<Rightarrow> device" where
  "Buffer indet b len d =
     d\<lparr>mem := (mem d)(b := Some (fresh indet len)),
       issued := issued d @ [CreateBuffer b len]\<rparr>"

text \<open>
  \<^verbatim>\<open>queue.enqueueWriteBuffer(b, blocking, offset, sizeof(int) * len, ptr)\<close>.
  Reading \<open>len\<close> elements from a shorter host array is undefined; a region that does
  not fit the buffer makes the call return an error code, which the host never looks at,
  and leaves the buffer as it was.
\<close>

definition enqueueWriteBuffer :: "buffer \<Rightarrow> bool \<Rightarrow> nat \<Rightarrow> nat \<Rightarrow> cint list \<Rightarrow> device \<Rightarrow> device option" where
  "enqueueWriteBuffer b blocking offset len ptr d =
     (case mem d b of
        None \<Rightarrow> None
      | Some old \<Rightarrow>
          if length ptr < len then None
          else Some (d\<lparr>mem := (if offset + len \<le> length old
                                then (mem d)(b := Some (take offset old @ take len ptr @ drop (offset + len) old))
                                else mem d),
                      issued := issued d @ [WriteBuffer b blocking offset len]\<rparr>))"

text \<open>
  \<^verbatim>\<open>queue.enqueueReadBuffer(b, blocking, offset, sizeof(int) * len, ptr)\<close>
  gives the new content of the host array.
\<close>

definition enqueueReadBuffer :: "buffer \<Rightarrow> bool \<Rightarrow> nat \<Rightarrow> nat \<Rightarrow> cint list \<Rightarrow> device \<Rightarrow> (cint list \<times> device) option" where
  "enqueueReadBuffer b blocking offset len ptr d =
     (case mem d b of
        None \<Rightarrow> None
      | Some cur \<Rightarrow>
          if length ptr < len then None
          else Some (if offset + len \<le> length cur
                     then take len (drop offset cur) @ drop len ptr
                     else ptr,
                     d\<lparr>issued := issued d @ [ReadBuffer b blocking offset len]\<rparr>))"

text \<open>
  A call of a \<^verbatim>\<open>cl::KernelFunctor\<close> made with \<^verbatim>\<open>cl::NDRange(Nthreads)\<close>:
  \<^verbatim>\<open>looped_add(b1, b2, b3, bc)\<close> and \<^verbatim>\<open>add(b1, b2, b3, bc)\<close>. The kernels
  are modelled for an output buffer that is none of the three input buffers.
\<close>

definition call_kernel :: "kernel \<Rightarrow> int \<Rightarrow> buffer \<Rightarrow> buffer \<Rightarrow> buffer \<Rightarrow> buffer \<Rightarrow> device \<Rightarrow> device option" where
  "call_kernel kern Nthreads b1 b2 b3 bc d =
     (if b3 = b1 \<or> b3 = b2 \<or> b3 = bc then None
      else do {
        v1 \<leftarrow> mem d b1;
        v2 \<leftarrow> mem d b2;
        v3 \<leftarrow> mem d b3;
        constants \<leftarrow> mem d bc;
        v3' \<leftarrow> run_kernel kern Nthreads v1 v2 v3 constants;
        Some (d\<lparr>mem := (mem d)(b3 := Some v3'),
                issued := issued d @ [NDRangeKernel kern [b1, b2, b3, bc] Nthreads]\<rparr>)
      })"

subsection \<open>main: the vectors\<close>

text \<open>
  \<^verbatim>\<open>for (int i=0; i<n; i++) { A[i] = i; B[i] = n - i - 1; C[i] = 0; }\<close>
\<close>

function construct_vectors :: "int \<Rightarrow> int \<Rightarrow> cint list \<Rightarrow> cint list \<Rightarrow> cint list \<Rightarrow> (cint list \<times> cint list \<times> cint list) option" where
  "construct_vectors i n A B C =
     (if i < n then
        do {
          A' \<leftarrow> store A i (word_of_int i);
          B' \<leftarrow> store B i (word_of_int (n - i - 1));
          C' \<leftarrow> store C i 0;
          construct_vectors (i + 1) n A' B' C'
        }
      else Some (A, B, C))"
  by pat_completeness auto
termination
  by (relation "measure (\<lambda>(i, n, A, B, C). nat (n - i))") auto

subsection \<open>main: the two timed paths\<close>

text \<open>
  The first path: four buffers, three writes, one call of \<^verbatim>\<open>looped_add\<close>, one
  read into \<open>C\<close>.
\<close>

definition gpu_version1 :: "(nat \<Rightarrow> cint) \<Rightarrow> int \<Rightarrow> int \<Rightarrow> cint list \<Rightarrow> cint list \<Rightarrow> cint list \<Rightarrow> cint list \<Rightarrow> device \<Rightarrow> (cint list \<times> device) option" where
  "gpu_version1 indet n Nthreads A B C constants d =
     do {
       let d = Buffer indet buffer_A (nat n) d;
       let d = Buffer indet buffer_B (nat n) d;
       let d = Buffer indet buffer_C (nat n) d;
       let d = Buffer indet buffer_constants 2 d;
       d \<leftarrow> enqueueWriteBuffer buffer_A True 0 (nat n) A d;
       d \<leftarrow> enqueueWriteBuffer buffer_B True 0 (nat n) B d;
       d \<leftarrow> enqueueWriteBuffer buffer_constants True 0 2 constants d;
       d \<leftarrow> call_kernel Looped_add Nthreads buffer_A buffer_B buffer_C buffer_constants d;
       enqueueReadBuffer buffer_C True 0 (nat n) C d
     }"

text \<open>
  The loop of the second path,
  \<^verbatim>\<open>for (int i=0; i<k; i++) { write A; write B; write constants; add(...); }\<close>
\<close>

function upload_and_add :: "int \<Rightarrow> int \<Rightarrow> int \<Rightarrow> int \<Rightarrow> cint list \<Rightarrow> cint list \<Rightarrow> cint list \<Rightarrow> device \<Rightarrow> device option" where
  "upload_and_add i k n Nthreads A B constants d =
     (if i < k then
        do {
          d \<leftarrow> enqueueWriteBuffer buffer_A2 True 0 (nat n) A d;
          d \<leftarrow> enqueueWriteBuffer buffer_B2 True 0 (nat n) B d;
          d \<leftarrow> enqueueWriteBuffer buffer_constants2 True 0 2 constants d;
          d \<leftarrow> call_kernel Add Nthreads buffer_A2 buffer_B2 buffer_C2 buffer_constants2 d;
          upload_and_add (i + 1) k n Nthreads A B constants d
        }
      else Some d)"
  by pat_completeness auto
termination
  by (relation "measure (\<lambda>(i, k, n, Nthreads, A, B, constants, d). nat (k - i))") auto

definition gpu_version2 :: "(nat \<Rightarrow> cint) \<Rightarrow> int \<Rightarrow> int \<Rightarrow> int \<Rightarrow> cint list \<Rightarrow> cint list \<Rightarrow> cint list \<Rightarrow> cint list \<Rightarrow> device \<Rightarrow> (cint list \<times> device) option" where
  "gpu_version2 indet n k Nthreads A B C constants d =
     do {
       let d = Buffer indet buffer_A2 (nat n) d;
       let d = Buffer indet buffer_B2 (nat n) d;
       let d = Buffer indet buffer_C2 (nat n) d;
       let d = Buffer indet buffer_constants2 2 d;
       d \<leftarrow> upload_and_add 0 k n Nthreads A B constants d;
       enqueueReadBuffer buffer_C2 True 0 (nat n) C d
     }"

subsection \<open>main\<close>

text \<open>
  What the run depends on and the program does not fix: the platforms
  \<^verbatim>\<open>cl::Platform::get\<close> finds, each given as the list of devices
  \<^verbatim>\<open>getDevices(CL_DEVICE_TYPE_ALL, ...)\<close> reports for it (a device is its name);
  whether \<^verbatim>\<open>program.build\<close> succeeds for a device (\<open>None\<close>) or fails with a
  build log; the contents of fresh memory; the three durations the clock measures; the
  conversion of a \<^verbatim>\<open>double\<close> to \<^verbatim>\<open>float\<close> and the floating-point division.
  Every other call of the OpenCL interface is taken to succeed. \<^verbatim>\<open>all_devices[1]\<close>
  on a device list of one element is an access outside the list.
\<close>

type_synonym cl_device = string
type_synonym cl_platform = "cl_device list"

record environment =
  all_platforms :: "cl_platform list"
  build :: "cl_device \<Rightarrow> string option"
  indeterminate :: "nat \<Rightarrow> cint"
  CPU_duration :: double
  GPU_duration1 :: double
  GPU_duration2 :: double
  to_float :: "double \<Rightarrow> double"
  quotient :: "double \<Rightarrow> double \<Rightarrow> double"

text \<open>What is written to \<^verbatim>\<open>std::cout\<close>, one item for each \<^verbatim>\<open><<\<close>.\<close>

datatype item = Text string | Number double | Endl

text \<open>
  A run that ends: the exit code, the output, the device with the commands issued, and
  the host arrays (\<open>C\<close> as it is after each of the two reads).
\<close>

record run =
  exit_code :: int
  stdout :: "item list"
  final_device :: device
  host_A :: "cint list"
  host_B :: "cint list"
  C_version1 :: "cint list"
  C_version2 :: "cint list"

text \<open>\<^verbatim>\<open>std::cout << message; exit(1);\<close> before any array or buffer exists.\<close>

definition exit_1 :: "item list \<Rightarrow> run" where
  "exit_1 message =
     \<lparr>exit_code = 1, stdout = message, final_device = no_device,
      host_A = [], host_B = [], C_version1 = [], C_version2 = []\<rparr>"

definition main_n :: int where
  "main_n = 100000"

definition main_k :: int where
  "main_k = 1000"

definition main_Nthreads :: int where
  "main_Nthreads = 10"

text \<open>\<^verbatim>\<open>int constants[2] = {n, k};\<close>\<close>

definition main_constants :: "cint list" where
  "main_constants = [word_of_int main_n, word_of_int main_k]"

text \<open>
  The report of one version (lines 167 to 175, and 177 to 185):
  \<^verbatim>\<open>time_ratio = (CPUtime / GPUtime)\<close>, three lines, then the verdict.
\<close>

definition report :: "environment \<Rightarrow> string \<Rightarrow> double \<Rightarrow> double \<Rightarrow> item list" where
  "report env title CPUtime GPUtime =
     (let time_ratio = quotient env CPUtime GPUtime
      in [Text title, Endl,
          Text ''CPU time: '', Number CPUtime, Endl,
          Text ''GPU time: '', Number GPUtime, Endl,
          Text ''GPU is '']
         @ (if exceeds_one time_ratio
            then [Number time_ratio, Text '' times faster!'', Endl]
            else [Number time_ratio, Text '' times slower :('', Endl]))"

definition main :: "environment \<Rightarrow> run option" where
  "main env =
     (if length (all_platforms env) = 0 then
        Some (exit_1 [Text ('' No platforms found. Check OpenCL installation!'' @ [CHR 0x0A])])
      else
        let default_platform = all_platforms env ! 0;
            all_devices = default_platform
        in
          if length all_devices = 0 then
            Some (exit_1 [Text ('' No devices found. Check OpenCL installation!'' @ [CHR 0x0A])])
          else if 1 < length all_devices then
            let default_device = all_devices ! 1
            in
              (case build env default_device of
                 Some build_log \<Rightarrow> Some (exit_1 [Text ''Error building: '', Text build_log, Endl])
               | None \<Rightarrow>
                   do {
                     let n = main_n;
                     let k = main_k;
                     let Nthreads = main_Nthreads;
                     let constants = main_constants;
                     let indet = indeterminate env;
                     duration \<leftarrow> timeAddVectorsCPU indet (CPU_duration env) n k;
                     let CPUtime = to_float env duration;
                     (A, B, C) \<leftarrow> construct_vectors 0 n
                        (fresh indet (nat n)) (fresh indet (nat n)) (fresh indet (nat n));
                     (C1, d) \<leftarrow> gpu_version1 indet n Nthreads A B C constants no_device;
                     (C2, d) \<leftarrow> gpu_version2 indet n k Nthreads A B C1 constants d;
                     Some \<lparr>exit_code = 0,
                           stdout = report env ''VERSION 1 -----------'' CPUtime (GPU_duration1 env)
                                  @ report env (CHR 0x0A # ''VERSION 2 -----------'') CPUtime (GPU_duration2 env),
                           final_device = d,
                           host_A = A, host_B = B, C_version1 = C1, C_version2 = C2\<rparr>
                   })
          else None)"

section \<open>Definitions for the statements and the proofs\<close>

text \<open>
  The equations of the loops are unfolded by hand, one iteration at a time.
\<close>

declare add_range.simps [simp del] looped_passes.simps [simp del] run_work_items.simps [simp del]

declare cpu_construct.simps [simp del] cpu_inner.simps [simp del] cpu_outer.simps [simp del]
  construct_vectors.simps [simp del] upload_and_add.simps [simp del]

text \<open>
  What a completed inner loop leaves in \<open>v3\<close>: the sums at the indices in \<open>[lo, hi)\<close>, the
  old content elsewhere.
\<close>

definition sum_on :: "cint list \<Rightarrow> cint list \<Rightarrow> int \<Rightarrow> int \<Rightarrow> cint list \<Rightarrow> cint list" where
  "sum_on v1 v2 lo hi v3 =
     map (\<lambda>i. if lo \<le> int i \<and> int i < hi then v1 ! i + v2 ! i else v3 ! i) [0..<length v3]"

text \<open>
  The work-items of a launch run in a given order, and the sums at the indices that
  satisfy \<open>P\<close>: for the lemma that the order of the work-items is of no account.
\<close>

primrec run_in_order :: "(int \<Rightarrow> cint list \<Rightarrow> cint list option) \<Rightarrow> int list \<Rightarrow> cint list \<Rightarrow> cint list option" where
  "run_in_order body [] v3 = Some v3"
| "run_in_order body (ID # IDs) v3 =
     (case body ID v3 of None \<Rightarrow> None | Some v3' \<Rightarrow> run_in_order body IDs v3')"

definition sum_where :: "cint list \<Rightarrow> cint list \<Rightarrow> (int \<Rightarrow> bool) \<Rightarrow> cint list \<Rightarrow> cint list" where
  "sum_where v1 v2 P v3 = map (\<lambda>i. if P (int i) then v1 ! i + v2 ! i else v3 ! i) [0..<length v3]"

text \<open>
  What a construction loop that has reached counter \<open>i\<close> returns for an array \<open>A\<close>, where
  it stores \<open>f j\<close> at index \<open>j\<close>.
\<close>

definition tab :: "int \<Rightarrow> (int \<Rightarrow> cint) \<Rightarrow> cint list \<Rightarrow> cint list" where
  "tab i f A = map (\<lambda>j. if int j < i then A ! j else f (int j)) [0..<length A]"

text \<open>The index range of a work-item.\<close>

definition item_range :: "int \<Rightarrow> int \<Rightarrow> int \<Rightarrow> int set" where
  "item_range n Nthreads ID = {start n Nthreads ID ..< stop n Nthreads ID}"

text \<open>The vectors \<open>A\<close> and \<open>B\<close> of \<^verbatim>\<open>main\<close> once its first loop has run.\<close>

definition main_A :: "cint list" where
  "main_A = map (\<lambda>j. word_of_int (int j)) [0..<nat main_n]"

definition main_B :: "cint list" where
  "main_B = map (\<lambda>j. word_of_int (main_n - int j - 1)) [0..<nat main_n]"

text \<open>
  The commands of the two timed paths, and the state of the device in which the loop of
  the second path runs: its four buffers exist, with their lengths.
\<close>

definition version1_commands :: "int \<Rightarrow> int \<Rightarrow> command list" where
  "version1_commands n Nthreads =
     [CreateBuffer buffer_A (nat n), CreateBuffer buffer_B (nat n), CreateBuffer buffer_C (nat n),
      CreateBuffer buffer_constants 2,
      WriteBuffer buffer_A True 0 (nat n), WriteBuffer buffer_B True 0 (nat n),
      WriteBuffer buffer_constants True 0 2,
      NDRangeKernel Looped_add [buffer_A, buffer_B, buffer_C, buffer_constants] Nthreads,
      ReadBuffer buffer_C True 0 (nat n)]"

definition iteration_commands :: "int \<Rightarrow> int \<Rightarrow> command list" where
  "iteration_commands n Nthreads =
     [WriteBuffer buffer_A2 True 0 (nat n), WriteBuffer buffer_B2 True 0 (nat n),
      WriteBuffer buffer_constants2 True 0 2,
      NDRangeKernel Add [buffer_A2, buffer_B2, buffer_C2, buffer_constants2] Nthreads]"

definition version2_commands :: "int \<Rightarrow> int \<Rightarrow> int \<Rightarrow> command list" where
  "version2_commands n k Nthreads =
     [CreateBuffer buffer_A2 (nat n), CreateBuffer buffer_B2 (nat n), CreateBuffer buffer_C2 (nat n),
      CreateBuffer buffer_constants2 2]
     @ concat (replicate (nat k) (iteration_commands n Nthreads))
     @ [ReadBuffer buffer_C2 True 0 (nat n)]"

definition buffers2_ready :: "int \<Rightarrow> device \<Rightarrow> bool" where
  "buffers2_ready n d =
     ((\<exists>a. mem d buffer_A2 = Some a \<and> length a = nat n) \<and>
      (\<exists>b. mem d buffer_B2 = Some b \<and> length b = nat n) \<and>
      (\<exists>c. mem d buffer_C2 = Some c \<and> length c = nat n) \<and>
      (\<exists>cs. mem d buffer_constants2 = Some cs \<and> length cs = 2))"

text \<open>
  The blocking flag a command carries, if it has one; the commands that go through the
  command queue; the transfers (writes and reads); the kernel launches; the creations of
  a given buffer.
\<close>

fun blocking_flag :: "command \<Rightarrow> bool option" where
  "blocking_flag (CreateBuffer b len) = None"
| "blocking_flag (WriteBuffer b blocking offset len) = Some blocking"
| "blocking_flag (NDRangeKernel kern args Nthreads) = None"
| "blocking_flag (ReadBuffer b blocking offset len) = Some blocking"

fun queue_operation :: "command \<Rightarrow> bool" where
  "queue_operation (CreateBuffer b len) = False"
| "queue_operation (WriteBuffer b blocking offset len) = True"
| "queue_operation (NDRangeKernel kern args Nthreads) = True"
| "queue_operation (ReadBuffer b blocking offset len) = True"

fun transfer :: "command \<Rightarrow> bool" where
  "transfer (CreateBuffer b len) = False"
| "transfer (WriteBuffer b blocking offset len) = True"
| "transfer (NDRangeKernel kern args Nthreads) = False"
| "transfer (ReadBuffer b blocking offset len) = True"

fun launch :: "command \<Rightarrow> bool" where
  "launch (NDRangeKernel kern args Nthreads) = True"
| "launch c = False"

fun allocates :: "buffer \<Rightarrow> command \<Rightarrow> bool" where
  "allocates b (CreateBuffer b' len) = (b = b')"
| "allocates b c = False"

text \<open>\<^verbatim>\<open>x <= 1\<close>: false when \<open>x\<close> is not a number.\<close>

fun at_most_one :: "double \<Rightarrow> bool" where
  "at_most_one NaN = False"
| "at_most_one PlusInf = False"
| "at_most_one MinusInf = True"
| "at_most_one (Finite x) = (x \<le> 1)"

text \<open>
  Two environments for the examples: a platform with a CPU and a GPU, and one with a CPU
  only. Their division is exact on finite values.
\<close>

fun exact_quotient :: "double \<Rightarrow> double \<Rightarrow> double" where
  "exact_quotient (Finite x) (Finite y) =
     (if y = 0 then (if x = 0 then NaN else if 0 < x then PlusInf else MinusInf)
      else Finite (x / y))"
| "exact_quotient x y = NaN"

definition example_environment :: environment where
  "example_environment =
     \<lparr>all_platforms = [[''CPU'', ''GPU'']],
      build = (\<lambda>dev. None),
      indeterminate = (\<lambda>i. 0),
      CPU_duration = Finite 2, GPU_duration1 = Finite 1, GPU_duration2 = Finite 4,
      to_float = (\<lambda>x. x),
      quotient = exact_quotient\<rparr>"

definition single_device_environment :: environment where
  "single_device_environment = example_environment\<lparr>all_platforms := [[''CPU'']]\<rparr>"

section \<open>Properties of the kernels\<close>

lemma length_sum_on: "length (sum_on v1 v2 lo hi v3) = length v3"
  by (simp add: sum_on_def)

lemma sum_on_empty: "hi \<le> lo \<Longrightarrow> sum_on v1 v2 lo hi v3 = v3"
  by (auto simp: sum_on_def intro!: nth_equalityI)

lemma sum_on_step:
  "0 \<le> j \<Longrightarrow> j < int (length v3) \<Longrightarrow>
   sum_on v1 v2 (j + 1) hi (v3[nat j := v1 ! nat j + v2 ! nat j]) = sum_on v1 v2 j (max hi (j + 1)) v3"
  by (auto simp: sum_on_def nth_list_update intro!: nth_equalityI)

lemma add_range_char:
  "add_range v1 v2 j stp v3 =
     (if j < stp then
        (if 0 \<le> j \<and> stp \<le> int (length v1) \<and> stp \<le> int (length v2) \<and> stp \<le> int (length v3)
         then Some (sum_on v1 v2 j stp v3) else None)
      else Some v3)"
proof (induction v1 v2 j stp v3 rule: add_range.induct)
  case (1 v1 v2 j stp v3)
  show ?case
  proof (cases "j < stp")
    case False
    then show ?thesis by (subst add_range.simps) simp
  next
    case True
    show ?thesis
    proof (cases "0 \<le> j \<and> j < int (length v1) \<and> j < int (length v2) \<and> j < int (length v3)")
      case False
      with True show ?thesis
        by (subst add_range.simps) (auto simp: load_def store_def)
    next
      case inb: True
      let ?v = "v3[nat j := v1 ! nat j + v2 ! nat j]"
      have ih: "add_range v1 v2 (j + 1) stp ?v =
        (if j + 1 < stp then
           (if 0 \<le> j + 1 \<and> stp \<le> int (length v1) \<and> stp \<le> int (length v2) \<and> stp \<le> int (length ?v)
            then Some (sum_on v1 v2 (j + 1) stp ?v) else None)
         else Some ?v)"
        using "1.IH" [of "v1 ! nat j" "v2 ! nat j" ?v] True inb
        by (simp add: load_def store_def)
      have unfold: "add_range v1 v2 j stp v3 = add_range v1 v2 (j + 1) stp ?v"
        using True inb by (subst add_range.simps) (simp add: load_def store_def)
      have "max stp (j + 1) = stp"
        using True by simp
      then have step: "sum_on v1 v2 (j + 1) stp ?v = sum_on v1 v2 j stp v3"
        using sum_on_step [of j v3 v1 v2 stp] inb by simp
      have last: "j + 1 = stp \<Longrightarrow> ?v = sum_on v1 v2 j stp v3"
        using step sum_on_empty [of stp "j + 1" v1 v2 ?v] by simp
      show ?thesis
        using True inb unfold ih step last by auto
    qed
  qed
qed

lemma sum_on_compose:
  "lo \<le> mid \<Longrightarrow> mid \<le> hi \<Longrightarrow>
   sum_on v1 v2 mid hi (sum_on v1 v2 lo mid v3) = sum_on v1 v2 lo hi v3"
  by (auto simp: sum_on_def intro!: nth_equalityI)

lemma sum_on_idem: "sum_on v1 v2 lo hi (sum_on v1 v2 lo hi v3) = sum_on v1 v2 lo hi v3"
  by (auto simp: sum_on_def intro!: nth_equalityI)

lemma sum_on_full:
  "length v1 = length v3 \<Longrightarrow> length v2 = length v3 \<Longrightarrow> hi = int (length v3) \<Longrightarrow>
   sum_on v1 v2 0 hi v3 = map2 (+) v1 v2"
  by (auto simp: sum_on_def intro!: nth_equalityI)

lemma add_range_idem:
  "add_range v1 v2 lo hi v3 = Some v3' \<Longrightarrow> add_range v1 v2 lo hi v3' = Some v3'"
  by (auto simp: add_range_char [of v1 v2 lo hi] length_sum_on sum_on_idem split: if_splits)

lemma looped_passes_eq:
  "i < k \<Longrightarrow> looped_passes v1 v2 lo hi i k v3 = add_range v1 v2 lo hi v3"
proof (induction v1 v2 lo hi i k v3 rule: looped_passes.induct)
  case (1 v1 v2 lo hi i k v3)
  show ?case
  proof (cases "add_range v1 v2 lo hi v3")
    case None
    with "1.prems" show ?thesis
      by (subst looped_passes.simps) simp
  next
    case (Some v3')
    have next_pass: "looped_passes v1 v2 lo hi (i + 1) k v3' = Some v3'"
    proof (cases "i + 1 < k")
      case True
      with "1.IH" [OF "1.prems" Some] add_range_idem [OF Some] show ?thesis
        by simp
    next
      case False
      then show ?thesis
        by (subst looped_passes.simps) simp
    qed
    with Some "1.prems" show ?thesis
      by (subst looped_passes.simps) simp
  qed
qed

lemma looped_add_eq_add:
  "1 \<le> sint k \<Longrightarrow> looped_add ID Nthreads v1 v2 v3 [n, k] = add ID Nthreads v1 v2 v3 [n, k]"
  by (simp add: looped_add_def add_def load_def looped_passes_eq)

lemma run_kernel_looped_eq:
  "1 \<le> sint k \<Longrightarrow>
   run_kernel Looped_add Nthreads v1 v2 v3 [n, k] = run_kernel Add Nthreads v1 v2 v3 [n, k]"
  by (simp add: run_kernel_def looped_add_eq_add)

lemma cdiv_nonneg: "0 \<le> a \<Longrightarrow> 0 < b \<Longrightarrow> cdiv a b = a div b"
  by (cases "a = 0") (simp_all add: cdiv_def)

lemma run_work_items_cover:
  "0 \<le> r \<Longrightarrow> 0 \<le> ID \<Longrightarrow> ID \<le> Nthreads \<Longrightarrow>
   r * Nthreads \<le> int (length v1) \<Longrightarrow> r * Nthreads \<le> int (length v2) \<Longrightarrow>
   r * Nthreads \<le> int (length v3) \<Longrightarrow>
   run_work_items (\<lambda>ID v. add_range v1 v2 (r * ID) (r * (ID + 1)) v) ID Nthreads v3 =
     Some (sum_on v1 v2 (r * ID) (r * Nthreads) v3)"
proof (induction "\<lambda>ID v. add_range v1 v2 (r * ID) (r * (ID + 1)) v" ID Nthreads v3
    rule: run_work_items.induct)
  case (1 ID Nthreads v3)
  note r = \<open>0 \<le> r\<close>
  show ?case
  proof (cases "ID < Nthreads")
    case False
    with "1.prems" have "ID = Nthreads" by simp
    then show ?thesis
      by (subst run_work_items.simps) (simp add: sum_on_empty)
  next
    case True
    have le: "r * (ID + 1) \<le> r * Nthreads"
      using True r by (intro mult_left_mono) auto
    have lo: "0 \<le> r * ID" "r * ID \<le> r * (ID + 1)"
      using r "1.prems" by (auto intro: mult_left_mono)
    have fits: "r * (ID + 1) \<le> int (length v1)" "r * (ID + 1) \<le> int (length v2)"
      "r * (ID + 1) \<le> int (length v3)"
      using order_trans [OF le] "1.prems" by blast+
    have one: "add_range v1 v2 (r * ID) (r * (ID + 1)) v3 = Some (sum_on v1 v2 (r * ID) (r * (ID + 1)) v3)"
      using lo fits by (simp add: add_range_char sum_on_empty)
    have "run_work_items (\<lambda>ID v. add_range v1 v2 (r * ID) (r * (ID + 1)) v) (ID + 1) Nthreads
            (sum_on v1 v2 (r * ID) (r * (ID + 1)) v3) =
          Some (sum_on v1 v2 (r * (ID + 1)) (r * Nthreads) (sum_on v1 v2 (r * ID) (r * (ID + 1)) v3))"
      using "1.hyps" [OF True one] True "1.prems" by (simp add: length_sum_on)
    then show ?thesis
      using True one lo le by (subst run_work_items.simps) (simp add: sum_on_compose)
  qed
qed

lemma run_kernel_Add_cover:
  assumes "0 < Nthreads" "0 \<le> sint n"
    and "sint n div Nthreads * Nthreads \<le> int (length v1)"
    and "sint n div Nthreads * Nthreads \<le> int (length v2)"
    and "sint n div Nthreads * Nthreads \<le> int (length v3)"
  shows "run_kernel Add Nthreads v1 v2 v3 (n # rest) =
           Some (sum_on v1 v2 0 (sint n div Nthreads * Nthreads) v3)"
proof -
  let ?r = "sint n div Nthreads"
  have r: "0 \<le> ?r"
    using assms by (simp add: pos_imp_zdiv_nonneg_iff)
  have body: "(\<lambda>ID v. kernel_body Add ID Nthreads v1 v2 v (n # rest)) =
      (\<lambda>ID v. add_range v1 v2 (?r * ID) (?r * (ID + 1)) v)"
    using assms by (simp add: add_def load_def start_def stop_def ratio_def cdiv_nonneg)
  show ?thesis
    unfolding run_kernel_def body
    using run_work_items_cover [of ?r 0 Nthreads v1 v2 v3] r assms
    by (simp add: mult.commute)
qed

section \<open>Properties of the host functions\<close>

lemma length_tab: "length (tab i f A) = length A"
  by (simp add: tab_def)

lemma tab_done: "int (length A) \<le> i \<Longrightarrow> tab i f A = A"
  by (auto simp: tab_def intro!: nth_equalityI)

lemma tab_step:
  "0 \<le> i \<Longrightarrow> i < int (length A) \<Longrightarrow> tab (i + 1) f (A[nat i := f i]) = tab i f A"
  by (auto simp: tab_def nth_list_update intro!: nth_equalityI)

lemma tab_0: "tab 0 f A = map (\<lambda>j. f (int j)) [0..<length A]"
  by (simp add: tab_def)

lemma cpu_construct_tab:
  "0 \<le> i \<Longrightarrow> i \<le> n \<Longrightarrow> length A = nat n \<Longrightarrow> length B = nat n \<Longrightarrow> length C = nat n \<Longrightarrow>
   cpu_construct i n A B C =
     Some (tab i word_of_int A, tab i (\<lambda>j. word_of_int (n - j)) B, tab i (\<lambda>j. 0) C)"
proof (induction i n A B C rule: cpu_construct.induct)
  case (1 i n A B C)
  show ?case
  proof (cases "i < n")
    case False
    with "1.prems" show ?thesis
      by (subst cpu_construct.simps) (simp add: tab_done)
  next
    case True
    let ?A = "A[nat i := word_of_int i]"
    let ?B = "B[nat i := word_of_int (n - i)]"
    let ?C = "C[nat i := 0]"
    have "cpu_construct (i + 1) n ?A ?B ?C =
        Some (tab (i + 1) word_of_int ?A, tab (i + 1) (\<lambda>j. word_of_int (n - j)) ?B,
              tab (i + 1) (\<lambda>j. 0) ?C)"
      using "1.IH" [of ?A ?B ?C] True "1.prems" by (simp add: store_def del: of_int_diff)
    then show ?thesis
      using True "1.prems"
      by (subst cpu_construct.simps) (simp del: of_int_diff add: store_def tab_step [where f = "\<lambda>j. word_of_int (n - j)"] tab_step [where f = word_of_int] tab_step [where f = "\<lambda>j. 0"])
  qed
qed

lemma construct_vectors_tab:
  "0 \<le> i \<Longrightarrow> i \<le> n \<Longrightarrow> length A = nat n \<Longrightarrow> length B = nat n \<Longrightarrow> length C = nat n \<Longrightarrow>
   construct_vectors i n A B C =
     Some (tab i word_of_int A, tab i (\<lambda>j. word_of_int (n - j - 1)) B, tab i (\<lambda>j. 0) C)"
proof (induction i n A B C rule: construct_vectors.induct)
  case (1 i n A B C)
  show ?case
  proof (cases "i < n")
    case False
    with "1.prems" show ?thesis
      by (subst construct_vectors.simps) (simp add: tab_done)
  next
    case True
    let ?A = "A[nat i := word_of_int i]"
    let ?B = "B[nat i := word_of_int (n - i - 1)]"
    let ?C = "C[nat i := 0]"
    have "construct_vectors (i + 1) n ?A ?B ?C =
        Some (tab (i + 1) word_of_int ?A, tab (i + 1) (\<lambda>j. word_of_int (n - j - 1)) ?B,
              tab (i + 1) (\<lambda>j. 0) ?C)"
      using "1.IH" [of ?A ?B ?C] True "1.prems" by (simp add: store_def del: of_int_diff)
    then show ?thesis
      using True "1.prems"
      by (subst construct_vectors.simps) (simp del: of_int_diff add: store_def tab_step [where f = "\<lambda>j. word_of_int (n - j - 1)"] tab_step [where f = word_of_int] tab_step [where f = "\<lambda>j. 0"])
  qed
qed

lemma cpu_inner_eq: "cpu_inner A B j n C = add_range A B j n C"
proof (induction A B j n C rule: cpu_inner.induct)
  case (1 A B j n C)
  show ?case
  proof (cases "j < n")
    case False
    then show ?thesis
      by (subst cpu_inner.simps, subst add_range.simps) simp
  next
    case True
    show ?thesis
      apply (subst cpu_inner.simps, subst add_range.simps)
      using True "1.IH"
      by (auto split: option.splits simp: bind_eq_None_conv)
  qed
qed

lemma cpu_outer_eq: "cpu_outer A B i k n C = looped_passes A B 0 n i k C"
proof (induction A B i k n C rule: cpu_outer.induct)
  case (1 A B i k n C)
  show ?case
  proof (cases "i < k")
    case False
    then show ?thesis
      by (subst cpu_outer.simps, subst looped_passes.simps) simp
  next
    case True
    show ?thesis
      apply (subst cpu_outer.simps, subst looped_passes.simps)
      using True "1.IH"
      by (auto split: option.splits simp: cpu_inner_eq)
  qed
qed

lemma run_kernel_sums:
  assumes "0 < Nthreads" "0 \<le> sint nw" "Nthreads dvd sint nw"
    and "length v1 = nat (sint nw)" "length v2 = nat (sint nw)" "length v3 = nat (sint nw)"
  shows "run_kernel Add Nthreads v1 v2 v3 [nw, kw] = Some (map2 (+) v1 v2)"
  using assms run_kernel_Add_cover [of Nthreads nw v1 v2 v3 "[kw]"]
  by (simp add: sum_on_full)

lemma gpu_version1_result:
  assumes "0 < Nthreads" "0 \<le> sint nw" "Nthreads dvd sint nw" "1 \<le> sint kw"
    and "length A = nat (sint nw)" "length B = nat (sint nw)" "length C = nat (sint nw)"
  shows "\<exists>d'. gpu_version1 indet (sint nw) Nthreads A B C [nw, kw] d = Some (map2 (+) A B, d')
            \<and> issued d' = issued d @ version1_commands (sint nw) Nthreads"
  using assms
  by (simp add: gpu_version1_def Buffer_def enqueueWriteBuffer_def call_kernel_def
      enqueueReadBuffer_def fresh_def run_kernel_looped_eq run_kernel_sums version1_commands_def)

lemma iteration_step:
  assumes "0 < Nthreads" "0 \<le> sint nw" "Nthreads dvd sint nw"
    and "length A = nat (sint nw)" "length B = nat (sint nw)"
    and "buffers2_ready (sint nw) d"
  shows "\<exists>d'. (enqueueWriteBuffer buffer_A2 True 0 (nat (sint nw)) A d \<bind>
              (\<lambda>d. enqueueWriteBuffer buffer_B2 True 0 (nat (sint nw)) B d \<bind>
              (\<lambda>d. enqueueWriteBuffer buffer_constants2 True 0 2 [nw, kw] d \<bind>
              (\<lambda>d. call_kernel Add Nthreads buffer_A2 buffer_B2 buffer_C2 buffer_constants2 d)))) = Some d'
          \<and> buffers2_ready (sint nw) d'
          \<and> mem d' buffer_C2 = Some (map2 (+) A B)
          \<and> issued d' = issued d @ iteration_commands (sint nw) Nthreads"
  using assms
  by (auto simp: buffers2_ready_def enqueueWriteBuffer_def call_kernel_def run_kernel_sums
      iteration_commands_def)

lemma upload_and_add_result:
  "0 < Nthreads \<Longrightarrow> 0 \<le> sint nw \<Longrightarrow> Nthreads dvd sint nw \<Longrightarrow>
   length A = nat (sint nw) \<Longrightarrow> length B = nat (sint nw) \<Longrightarrow> n = sint nw \<Longrightarrow> constants = [nw, kw] \<Longrightarrow>
   buffers2_ready n d \<Longrightarrow> i \<le> k \<Longrightarrow>
   \<exists>d'. upload_and_add i k n Nthreads A B constants d = Some d'
      \<and> buffers2_ready n d'
      \<and> mem d' buffer_C2 = (if i < k then Some (map2 (+) A B) else mem d buffer_C2)
      \<and> issued d' = issued d @ concat (replicate (nat (k - i)) (iteration_commands n Nthreads))"
proof (induction i k n Nthreads A B constants d rule: upload_and_add.induct)
  case (1 i k n Nthreads A B constants d)
  show ?case
  proof (cases "i < k")
    case False
    with "1.prems" show ?thesis
      by (subst upload_and_add.simps) simp
  next
    case True
    from iteration_step [of Nthreads nw A B d kw] "1.prems"
    obtain d1 where d1:
      "(enqueueWriteBuffer buffer_A2 True 0 (nat n) A d \<bind>
          (\<lambda>d. enqueueWriteBuffer buffer_B2 True 0 (nat n) B d \<bind>
          (\<lambda>d. enqueueWriteBuffer buffer_constants2 True 0 2 constants d \<bind>
          (\<lambda>d. call_kernel Add Nthreads buffer_A2 buffer_B2 buffer_C2 buffer_constants2 d)))) = Some d1"
      "buffers2_ready n d1" "mem d1 buffer_C2 = Some (map2 (+) A B)"
      "issued d1 = issued d @ iteration_commands n Nthreads"
      by auto
    from d1(1) obtain da db dc where steps:
      "enqueueWriteBuffer buffer_A2 True 0 (nat n) A d = Some da"
      "enqueueWriteBuffer buffer_B2 True 0 (nat n) B da = Some db"
      "enqueueWriteBuffer buffer_constants2 True 0 2 constants db = Some dc"
      "call_kernel Add Nthreads buffer_A2 buffer_B2 buffer_C2 buffer_constants2 dc = Some d1"
      by (auto simp: bind_eq_Some_conv)
    from "1.IH" [OF True steps "1.prems"(1-7) d1(2)] True
    obtain d' where d':
      "upload_and_add (i + 1) k n Nthreads A B constants d1 = Some d'"
      "buffers2_ready n d'"
      "mem d' buffer_C2 = (if i + 1 < k then Some (map2 (+) A B) else mem d1 buffer_C2)"
      "issued d' = issued d1 @ concat (replicate (nat (k - (i + 1))) (iteration_commands n Nthreads))"
      by auto
    have count: "nat (k - i) = Suc (nat (k - (i + 1)))"
      using True by simp
    have "upload_and_add i k n Nthreads A B constants d = Some d'"
      using True steps d'(1) by (subst upload_and_add.simps) simp
    moreover have "mem d' buffer_C2 = Some (map2 (+) A B)"
      using d'(3) d1(3) by simp
    moreover have "issued d' = issued d @ concat (replicate (nat (k - i)) (iteration_commands n Nthreads))"
      using d'(4) d1(4) by (simp add: count)
    ultimately show ?thesis
      using True d'(2) by simp
  qed
qed

lemma gpu_version2_result:
  assumes "0 < Nthreads" "0 \<le> sint nw" "Nthreads dvd sint nw" "1 \<le> k"
    and "length A = nat (sint nw)" "length B = nat (sint nw)" "length C = nat (sint nw)"
  shows "\<exists>d'. gpu_version2 indet (sint nw) k Nthreads A B C [nw, kw] d = Some (map2 (+) A B, d')
            \<and> issued d' = issued d @ version2_commands (sint nw) k Nthreads"
proof -
  let ?n = "sint nw"
  let ?d = "Buffer indet buffer_constants2 2 (Buffer indet buffer_C2 (nat ?n)
              (Buffer indet buffer_B2 (nat ?n) (Buffer indet buffer_A2 (nat ?n) d)))"
  have ready: "buffers2_ready ?n ?d"
    by (simp add: buffers2_ready_def Buffer_def fresh_def)
  have log: "issued ?d = issued d @ [CreateBuffer buffer_A2 (nat ?n), CreateBuffer buffer_B2 (nat ?n),
      CreateBuffer buffer_C2 (nat ?n), CreateBuffer buffer_constants2 2]"
    by (simp add: Buffer_def)
  from upload_and_add_result [OF assms(1-3,5,6) refl refl ready, of 0 k kw] assms(4)
  obtain d1 where d1: "upload_and_add 0 k ?n Nthreads A B [nw, kw] ?d = Some d1"
    "buffers2_ready ?n d1" "mem d1 buffer_C2 = Some (map2 (+) A B)"
    "issued d1 = issued ?d @ concat (replicate (nat k) (iteration_commands ?n Nthreads))"
    by auto
  show ?thesis
    using d1 log assms(5-7)
    by (simp add: gpu_version2_def enqueueReadBuffer_def version2_commands_def)
qed

section \<open>Properties of main\<close>

lemma sint_main_n: "sint (word_of_int main_n :: cint) = main_n"
  by (simp add: main_n_def)

lemma sint_main_k: "sint (word_of_int main_k :: cint) = main_k"
  by (simp add: main_k_def)

lemma main_vectors:
  "construct_vectors 0 main_n (fresh indet (nat main_n)) (fresh indet (nat main_n)) (fresh indet (nat main_n)) =
     Some (main_A, main_B, replicate (nat main_n) 0)"
proof -
  have "construct_vectors 0 main_n (fresh indet (nat main_n)) (fresh indet (nat main_n)) (fresh indet (nat main_n)) =
     Some (tab 0 word_of_int (fresh indet (nat main_n)),
           tab 0 (\<lambda>j. word_of_int (main_n - j - 1)) (fresh indet (nat main_n)),
           tab 0 (\<lambda>j. 0) (fresh indet (nat main_n)))"
    by (rule construct_vectors_tab) (simp_all add: fresh_def main_n_def)
  then show ?thesis
    by (simp add: tab_0 fresh_def main_A_def main_B_def map_replicate_const del: of_int_diff)
qed

lemma timeAddVectorsCPU_arrays_result:
  assumes "0 < n" "1 \<le> k"
  shows "timeAddVectorsCPU_arrays indet n k =
    Some (map (\<lambda>j. word_of_int (int j)) [0..<nat n],
          map (\<lambda>j. word_of_int (n - int j)) [0..<nat n],
          replicate (nat n) (word_of_int n))"
proof -
  let ?A = "map (\<lambda>j. word_of_int (int j)) [0..<nat n] :: cint list"
  let ?B = "map (\<lambda>j. word_of_int (n - int j)) [0..<nat n] :: cint list"
  let ?C = "replicate (nat n) 0 :: cint list"
  have "cpu_construct 0 n (fresh indet (nat n)) (fresh indet (nat n)) (fresh indet (nat n)) =
     Some (tab 0 word_of_int (fresh indet (nat n)),
           tab 0 (\<lambda>j. word_of_int (n - j)) (fresh indet (nat n)),
           tab 0 (\<lambda>j. 0) (fresh indet (nat n)))"
    using assms by (intro cpu_construct_tab) (simp_all add: fresh_def)
  then have construct: "cpu_construct 0 n (fresh indet (nat n)) (fresh indet (nat n)) (fresh indet (nat n)) =
     Some (?A, ?B, ?C)"
    by (simp add: tab_0 fresh_def map_replicate_const del: of_int_diff)
  have "cpu_outer ?A ?B 0 k n ?C = Some (sum_on ?A ?B 0 n ?C)"
    using assms by (simp add: cpu_outer_eq looped_passes_eq add_range_char)
  also have "sum_on ?A ?B 0 n ?C = map2 (+) ?A ?B"
    using assms by (intro sum_on_full) simp_all
  also have "\<dots> = replicate (nat n) (word_of_int n)"
    by (auto intro!: nth_equalityI)
  finally show ?thesis
    using assms construct by (simp add: timeAddVectorsCPU_arrays_def del: of_int_diff)
qed

lemma main_sums: "map2 (+) main_A main_B = replicate (nat main_n) (word_of_int (main_n - 1))"
  by (auto simp: main_A_def main_B_def intro!: nth_equalityI)

lemma main_success:
  assumes "all_platforms env \<noteq> []" "1 < length (all_platforms env ! 0)"
    and "build env (all_platforms env ! 0 ! 1) = None"
  shows "\<exists>d. main env =
      Some \<lparr>exit_code = 0,
            stdout = report env ''VERSION 1 -----------'' (to_float env (CPU_duration env)) (GPU_duration1 env)
                   @ report env (CHR 0x0A # ''VERSION 2 -----------'') (to_float env (CPU_duration env)) (GPU_duration2 env),
            final_device = d,
            host_A = main_A, host_B = main_B,
            C_version1 = map2 (+) main_A main_B, C_version2 = map2 (+) main_A main_B\<rparr>
    \<and> issued d = version1_commands main_n main_Nthreads @ version2_commands main_n main_k main_Nthreads"
proof -
  let ?indet = "indeterminate env"
  let ?sums = "map2 (+) main_A main_B"
  have len: "length main_A = nat main_n" "length main_B = nat main_n"
    by (simp_all add: main_A_def main_B_def)
  have cfg: "0 < main_Nthreads" "0 \<le> main_n" "main_Nthreads dvd main_n" "1 \<le> main_k" "0 < main_n"
    by (simp_all add: main_Nthreads_def main_n_def main_k_def)
  have cpu: "timeAddVectorsCPU ?indet (CPU_duration env) main_n main_k = Some (CPU_duration env)"
    using cfg by (simp add: timeAddVectorsCPU_def timeAddVectorsCPU_arrays_result)
  from gpu_version1_result [of main_Nthreads "word_of_int main_n" "word_of_int main_k"
      main_A main_B "replicate (nat main_n) 0" ?indet no_device] cfg len
  obtain d1 where d1:
    "gpu_version1 ?indet main_n main_Nthreads main_A main_B (replicate (nat main_n) 0) main_constants no_device =
       Some (?sums, d1)"
    "issued d1 = version1_commands main_n main_Nthreads"
    by (auto simp: sint_main_n sint_main_k main_constants_def no_device_def)
  from gpu_version2_result [of main_Nthreads "word_of_int main_n" main_k
      main_A main_B ?sums ?indet "word_of_int main_k" d1] cfg len
  obtain d2 where d2:
    "gpu_version2 ?indet main_n main_k main_Nthreads main_A main_B ?sums main_constants d1 =
       Some (?sums, d2)"
    "issued d2 = issued d1 @ version2_commands main_n main_k main_Nthreads"
    by (auto simp: sint_main_n main_constants_def)
  have "main env =
      Some \<lparr>exit_code = 0,
            stdout = report env ''VERSION 1 -----------'' (to_float env (CPU_duration env)) (GPU_duration1 env)
                   @ report env (CHR 0x0A # ''VERSION 2 -----------'') (to_float env (CPU_duration env)) (GPU_duration2 env),
            final_device = d2,
            host_A = main_A, host_B = main_B,
            C_version1 = ?sums, C_version2 = ?sums\<rparr>"
    using assms cpu main_vectors [of ?indet] d1(1) d2(1)
    by (auto simp: main_def Let_def)
  then show ?thesis
    using d1(2) d2(2) by simp
qed

lemma main_no_platform:
  "all_platforms env = [] \<Longrightarrow>
   main env = Some (exit_1 [Text ('' No platforms found. Check OpenCL installation!'' @ [CHR 0x0A])])"
  by (simp add: main_def)

lemma main_no_device:
  "all_platforms env \<noteq> [] \<Longrightarrow> all_platforms env ! 0 = [] \<Longrightarrow>
   main env = Some (exit_1 [Text ('' No devices found. Check OpenCL installation!'' @ [CHR 0x0A])])"
  by (simp add: main_def)

lemma main_single_device:
  "all_platforms env \<noteq> [] \<Longrightarrow> length (all_platforms env ! 0) = 1 \<Longrightarrow> main env = None"
  by (cases "all_platforms env ! 0") (auto simp: main_def Let_def)

lemma main_build_failure:
  "all_platforms env \<noteq> [] \<Longrightarrow> 1 < length (all_platforms env ! 0) \<Longrightarrow>
   build env (all_platforms env ! 0 ! 1) = Some build_log \<Longrightarrow>
   main env = Some (exit_1 [Text ''Error building: '', Text build_log, Endl])"
  by (auto simp: main_def Let_def)

text \<open>
  All runs but those with a single device end, with exit code 0 or 1; the runs that exit
  with 1 issue no command.
\<close>

lemma main_exit_code:
  assumes "all_platforms env = [] \<or> length (all_platforms env ! 0) \<noteq> 1"
  shows "\<exists>r. main env = Some r
    \<and> (exit_code r = 0 \<or> exit_code r = 1)
    \<and> ((exit_code r = 1) =
         (all_platforms env = [] \<or> all_platforms env ! 0 = []
          \<or> build env (all_platforms env ! 0 ! 1) \<noteq> None))
    \<and> (exit_code r = 1 \<longrightarrow> issued (final_device r) = [] \<and> stdout r \<noteq> [])"
proof (cases "all_platforms env = []")
  case True
  then show ?thesis
    by (simp add: main_no_platform exit_1_def no_device_def)
next
  case platform: False
  show ?thesis
  proof (cases "all_platforms env ! 0 = []")
    case True
    with platform show ?thesis
      by (simp add: main_no_device exit_1_def no_device_def)
  next
    case False
    with assms platform have two: "1 < length (all_platforms env ! 0)"
      by (cases "all_platforms env ! 0") auto
    show ?thesis
    proof (cases "build env (all_platforms env ! 0 ! 1)")
      case None
      from main_success [OF platform two None] obtain r where "main env = Some r" "exit_code r = 0"
        by auto
      with platform False None show ?thesis by simp
    next
      case (Some build_log)
      with platform False main_build_failure [OF platform two Some] show ?thesis
        by (simp add: exit_1_def no_device_def)
    qed
  qed
qed

text \<open>On the vectors of \<^verbatim>\<open>main\<close> no addition leaves the range of \<^verbatim>\<open>int\<close>.\<close>

lemma sint_word_of_int:
  "- (2 ^ 31) \<le> x \<Longrightarrow> x < 2 ^ 31 \<Longrightarrow> sint (word_of_int x :: cint) = x"
  by (simp add: signed_of_int signed_take_bit_int_eq_self)

lemma main_additions_do_not_wrap:
  assumes "i < nat main_n"
  shows "sint (main_A ! i) + sint (main_B ! i) = main_n - 1"
    and "sint (main_A ! i + main_B ! i) = main_n - 1"
proof -
  have i: "int i < 100000" using assms by (simp add: main_n_def)
  have a: "sint (word_of_int (int i) :: cint) = int i"
    using i by (intro sint_word_of_int) simp_all
  have b: "sint (word_of_int (main_n - int i - 1) :: cint) = main_n - int i - 1"
    using i by (intro sint_word_of_int) (simp_all add: main_n_def)
  show "sint (main_A ! i) + sint (main_B ! i) = main_n - 1"
    using assms a b by (simp add: main_A_def main_B_def del: of_int_diff)
  have "main_A ! i + main_B ! i = (word_of_int (main_n - 1) :: cint)"
    using assms by (simp add: main_A_def main_B_def)
  then show "sint (main_A ! i + main_B ! i) = main_n - 1"
    by (simp add: main_n_def)
qed

section \<open>Index ranges\<close>

lemma ratio_pos: "1 \<le> n \<Longrightarrow> 1 \<le> Nthreads \<Longrightarrow> ratio n Nthreads = n div Nthreads"
  by (simp add: ratio_def cdiv_nonneg)

lemma item_range_eq:
  "1 \<le> n \<Longrightarrow> 1 \<le> Nthreads \<Longrightarrow>
   item_range n Nthreads ID = {n div Nthreads * ID ..< n div Nthreads * (ID + 1)}"
  by (simp add: item_range_def start_def stop_def ratio_pos)

lemma blocks_disjoint_less:
  fixes r :: int
  assumes "0 \<le> r" "a < b"
  shows "{r * a ..< r * (a + 1)} \<inter> {r * b ..< r * (b + 1)} = {}"
proof -
  have le: "r * (a + 1) \<le> r * b"
    using assms by (intro mult_left_mono) auto
  show ?thesis
  proof (rule equals0I)
    fix x
    assume "x \<in> {r * a ..< r * (a + 1)} \<inter> {r * b ..< r * (b + 1)}"
    then have "x < r * (a + 1)" "r * b \<le> x" by auto
    with le show False by linarith
  qed
qed

lemma blocks_disjoint:
  fixes r :: int
  assumes "0 \<le> r" "a \<noteq> b"
  shows "{r * a ..< r * (a + 1)} \<inter> {r * b ..< r * (b + 1)} = {}"
proof (cases "a < b")
  case True
  with assms(1) show ?thesis by (rule blocks_disjoint_less)
next
  case False
  with assms have "b < a" by simp
  with assms(1) have "{r * b ..< r * (b + 1)} \<inter> {r * a ..< r * (a + 1)} = {}"
    by (rule blocks_disjoint_less)
  then show ?thesis by (simp only: Int_commute)
qed

lemma block_card:
  fixes r :: int
  shows "card {r * a ..< r * (a + 1)} = nat r"
  by (simp add: algebra_simps)

lemma blocks_union:
  fixes r :: int
  assumes "0 \<le> r"
  shows "(\<Union>a\<in>{0..<m}. {r * a ..< r * (a + 1)}) = {0..<r * m}"
proof (intro set_eqI iffI)
  fix x
  assume "x \<in> (\<Union>a\<in>{0..<m}. {r * a ..< r * (a + 1)})"
  then obtain a where a: "0 \<le> a" "a < m" "r * a \<le> x" "x < r * (a + 1)"
    by auto
  have "0 \<le> r * a"
    using assms a by simp
  moreover have "r * (a + 1) \<le> r * m"
    using assms a by (intro mult_left_mono) auto
  ultimately show "x \<in> {0..<r * m}"
    using a by auto
next
  fix x
  assume "x \<in> {0..<r * m}"
  then have x: "0 \<le> x" "x < r * m" by auto
  then have rpos: "0 < r"
    using assms by (cases "r = 0") auto
  let ?a = "x div r"
  have split: "x = r * ?a + x mod r" by simp
  have rem: "0 \<le> x mod r" "x mod r < r" using rpos by simp_all
  have below: "r * ?a \<le> x"
    using split rem by linarith
  have "r * (?a + 1) = r * ?a + r"
    by (simp add: algebra_simps)
  with split rem have above: "x < r * (?a + 1)"
    by linarith
  have "0 \<le> ?a"
    using x rpos by (simp add: pos_imp_zdiv_nonneg_iff)
  moreover have "?a < m"
  proof (rule ccontr)
    assume "\<not> ?a < m"
    then have "r * m \<le> r * ?a"
      using rpos by (intro mult_left_mono) auto
    with below x show False by linarith
  qed
  moreover note below above
  ultimately show "x \<in> (\<Union>a\<in>{0..<m}. {r * a ..< r * (a + 1)})"
    by auto
qed

lemma cover_iff:
  fixes n :: int
  assumes "1 \<le> n" "1 \<le> m"
  shows "({0..<n div m * m} = {0..<n}) = (m dvd n)"
proof
  assume eq: "{0..<n div m * m} = {0..<n}"
  have "n - 1 \<in> {0..<n}" using assms by simp
  with eq have "n - 1 < n div m * m" by auto
  moreover have "n div m * m \<le> n"
  proof -
    have "n = n div m * m + n mod m" by simp
    moreover have "0 \<le> n mod m" using assms by simp
    ultimately show ?thesis by linarith
  qed
  ultimately have "n div m * m = n" by simp
  then show "m dvd n"
    by (metis dvd_triv_right)
next
  assume "m dvd n"
  then show "{0..<n div m * m} = {0..<n}" by simp
qed

text \<open>
  For the work-item numbers the runtime supplies, every value of the index arithmetic lies
  between \<open>-|n|\<close> and \<open>|n|\<close>: it is the same in 32-bit integers.
\<close>

lemma start_stop_in_int_range:
  assumes "0 \<le> ID" "ID < Nthreads" "- (2 ^ 31) \<le> n" "n < 2 ^ 31"
  shows "\<bar>ratio n Nthreads\<bar> \<le> \<bar>n\<bar>"
    and "\<bar>start n Nthreads ID\<bar> \<le> \<bar>n\<bar>"
    and "\<bar>stop n Nthreads ID\<bar> \<le> \<bar>n\<bar>"
proof -
  have N: "0 < Nthreads" using assms by simp
  let ?q = "\<bar>n\<bar> div Nthreads"
  have q0: "0 \<le> ?q"
    using N by (simp add: pos_imp_zdiv_nonneg_iff)
  have abs_ratio: "\<bar>ratio n Nthreads\<bar> = ?q"
    using N q0 by (simp add: ratio_def cdiv_def abs_mult sgn_if)
  have qN: "?q * Nthreads \<le> \<bar>n\<bar>"
  proof -
    have "\<bar>n\<bar> = ?q * Nthreads + \<bar>n\<bar> mod Nthreads" by simp
    moreover have "0 \<le> \<bar>n\<bar> mod Nthreads" using N by simp
    ultimately show ?thesis by linarith
  qed
  have step: "\<And>m. 0 \<le> m \<Longrightarrow> m \<le> Nthreads \<Longrightarrow> ?q * m \<le> \<bar>n\<bar>"
  proof -
    fix m :: int
    assume "0 \<le> m" "m \<le> Nthreads"
    then have "?q * m \<le> ?q * Nthreads"
      using q0 by (intro mult_left_mono) auto
    with qN show "?q * m \<le> \<bar>n\<bar>" by linarith
  qed
  show "\<bar>ratio n Nthreads\<bar> \<le> \<bar>n\<bar>"
    using step [of 1] N abs_ratio by simp
  show "\<bar>start n Nthreads ID\<bar> \<le> \<bar>n\<bar>"
    using step [of ID] assms abs_ratio by (simp add: start_def abs_mult)
  show "\<bar>stop n Nthreads ID\<bar> \<le> \<bar>n\<bar>"
    using step [of "ID + 1"] assms abs_ratio by (simp add: stop_def abs_mult)
qed

section \<open>The order of the work-items\<close>

text \<open>
  \<open>run_work_items\<close> runs the work-items in ascending order. Run in any other order, and
  with any of them run again, the work-items of \<^verbatim>\<open>add\<close> leave the same \<open>v3\<close>: they
  write disjoint ranges and read \<open>v1\<close>, \<open>v2\<close> and the constants only.
\<close>

lemma run_work_items_in_order:
  "run_work_items body ID Nthreads v3 = run_in_order body [ID..Nthreads - 1] v3"
proof (induction body ID Nthreads v3 rule: run_work_items.induct)
  case (1 body ID Nthreads v3)
  show ?case
  proof (cases "ID < Nthreads")
    case False
    then show ?thesis
      by (subst run_work_items.simps) simp
  next
    case True
    then have "[ID..Nthreads - 1] = ID # [ID + 1..Nthreads - 1]"
      by (simp add: upto_rec1)
    with True "1.IH" show ?thesis
      by (subst run_work_items.simps) (simp split: option.splits)
  qed
qed

lemma sum_on_sum_where: "sum_on v1 v2 lo hi v3 = sum_where v1 v2 (\<lambda>i. i \<in> {lo..<hi}) v3"
  by (simp add: sum_on_def sum_where_def)

lemma sum_where_twice:
  "sum_where v1 v2 Q (sum_where v1 v2 P v3) = sum_where v1 v2 (\<lambda>i. P i \<or> Q i) v3"
  by (auto simp: sum_where_def intro!: nth_equalityI)

lemma run_in_order_add:
  assumes r: "0 \<le> r"
    and len: "r * Nthreads \<le> int (length v1)" "r * Nthreads \<le> int (length v2)"
  shows "set IDs \<subseteq> {0..<Nthreads} \<Longrightarrow> r * Nthreads \<le> int (length v3) \<Longrightarrow>
    run_in_order (\<lambda>ID v. add_range v1 v2 (r * ID) (r * (ID + 1)) v) IDs v3 =
      Some (sum_where v1 v2 (\<lambda>i. \<exists>ID \<in> set IDs. i \<in> {r * ID ..< r * (ID + 1)}) v3)"
proof (induction IDs arbitrary: v3)
  case Nil
  then show ?case
    by (auto simp: sum_where_def intro!: nth_equalityI)
next
  case (Cons ID IDs)
  then have ID: "0 \<le> ID" "ID < Nthreads" by auto
  have le: "r * (ID + 1) \<le> r * Nthreads"
    using ID r by (intro mult_left_mono) auto
  have lo: "0 \<le> r * ID" "r * ID \<le> r * (ID + 1)"
    using r ID by (auto intro: mult_left_mono)
  have fits: "r * (ID + 1) \<le> int (length v1)" "r * (ID + 1) \<le> int (length v2)"
    "r * (ID + 1) \<le> int (length v3)"
    using order_trans [OF le] len Cons.prems by blast+
  have one: "add_range v1 v2 (r * ID) (r * (ID + 1)) v3 = Some (sum_on v1 v2 (r * ID) (r * (ID + 1)) v3)"
    using lo fits by (simp add: add_range_char sum_on_empty)
  have rest: "run_in_order (\<lambda>ID v. add_range v1 v2 (r * ID) (r * (ID + 1)) v) IDs
      (sum_on v1 v2 (r * ID) (r * (ID + 1)) v3) =
      Some (sum_where v1 v2 (\<lambda>i. \<exists>ID \<in> set IDs. i \<in> {r * ID ..< r * (ID + 1)})
        (sum_on v1 v2 (r * ID) (r * (ID + 1)) v3))"
    using Cons.prems by (intro Cons.IH) (simp_all add: length_sum_on)
  have "sum_where v1 v2 (\<lambda>i. \<exists>ID \<in> set IDs. i \<in> {r * ID ..< r * (ID + 1)})
        (sum_on v1 v2 (r * ID) (r * (ID + 1)) v3) =
      sum_where v1 v2 (\<lambda>i. \<exists>ID' \<in> set (ID # IDs). i \<in> {r * ID' ..< r * (ID' + 1)}) v3"
    unfolding sum_on_sum_where sum_where_twice
    by (auto simp: sum_where_def intro!: nth_equalityI)
  with one rest show ?case by simp
qed

lemma run_in_any_order:
  assumes "0 < Nthreads" "0 \<le> sint n"
    and "sint n div Nthreads * Nthreads \<le> int (length v1)"
    and "sint n div Nthreads * Nthreads \<le> int (length v2)"
    and "sint n div Nthreads * Nthreads \<le> int (length v3)"
    and "set IDs = {0..<Nthreads}"
  shows "run_in_order (\<lambda>ID v. add ID Nthreads v1 v2 v (n # rest)) IDs v3 =
           run_kernel Add Nthreads v1 v2 v3 (n # rest)"
proof -
  let ?r = "sint n div Nthreads"
  have r: "0 \<le> ?r"
    using assms by (simp add: pos_imp_zdiv_nonneg_iff)
  have body: "(\<lambda>ID v. add ID Nthreads v1 v2 v (n # rest)) =
      (\<lambda>ID v. add_range v1 v2 (?r * ID) (?r * (ID + 1)) v)"
    using assms by (simp add: add_def load_def start_def stop_def ratio_def cdiv_nonneg)
  have "run_in_order (\<lambda>ID v. add ID Nthreads v1 v2 v (n # rest)) IDs v3 =
      Some (sum_where v1 v2 (\<lambda>i. \<exists>ID \<in> set IDs. i \<in> {?r * ID ..< ?r * (ID + 1)}) v3)"
    unfolding body using r assms by (intro run_in_order_add) (simp_all add: mult.commute)
  also have "(\<lambda>i. \<exists>ID \<in> set IDs. i \<in> {?r * ID ..< ?r * (ID + 1)}) = (\<lambda>i. i \<in> {0..<?r * Nthreads})"
  proof
    fix i
    have "(i \<in> (\<Union>ID\<in>{0..<Nthreads}. {?r * ID ..< ?r * (ID + 1)})) = (i \<in> {0..<?r * Nthreads})"
      by (simp only: blocks_union [OF r])
    then show "(\<exists>ID \<in> set IDs. i \<in> {?r * ID ..< ?r * (ID + 1)}) = (i \<in> {0..<?r * Nthreads})"
      unfolding assms(6) by (simp only: UN_iff)
  qed
  also have "Some (sum_where v1 v2 (\<lambda>i. i \<in> {0..<?r * Nthreads}) v3) =
      run_kernel Add Nthreads v1 v2 v3 (n # rest)"
    using run_kernel_Add_cover [OF assms(1-5), of rest]
    by (simp add: sum_on_sum_where mult.commute)
  finally show ?thesis .
qed

section \<open>The example environments and the commands of main\<close>

lemma example_ok:
  "all_platforms example_environment \<noteq> []"
  "1 < length (all_platforms example_environment ! 0)"
  "build example_environment (all_platforms example_environment ! 0 ! 1) = None"
  by (simp_all add: example_environment_def)

lemma main_sums_numeral: "map2 (+) main_A main_B = replicate 100000 99999"
  by (simp add: main_sums) (simp add: main_n_def)

lemma main_commands:
  "version1_commands main_n main_Nthreads @ version2_commands main_n main_k main_Nthreads =
     [CreateBuffer buffer_A 100000, CreateBuffer buffer_B 100000, CreateBuffer buffer_C 100000,
      CreateBuffer buffer_constants 2,
      WriteBuffer buffer_A True 0 100000, WriteBuffer buffer_B True 0 100000,
      WriteBuffer buffer_constants True 0 2,
      NDRangeKernel Looped_add [buffer_A, buffer_B, buffer_C, buffer_constants] 10,
      ReadBuffer buffer_C True 0 100000]
     @ [CreateBuffer buffer_A2 100000, CreateBuffer buffer_B2 100000, CreateBuffer buffer_C2 100000,
        CreateBuffer buffer_constants2 2]
     @ concat (replicate 1000
         [WriteBuffer buffer_A2 True 0 100000, WriteBuffer buffer_B2 True 0 100000,
          WriteBuffer buffer_constants2 True 0 2,
          NDRangeKernel Add [buffer_A2, buffer_B2, buffer_C2, buffer_constants2] 10])
     @ [ReadBuffer buffer_C2 True 0 100000]"
  by (simp add: version1_commands_def version2_commands_def iteration_commands_def
      main_n_def main_k_def main_Nthreads_def)

lemma sum_on_nth:
  "i < length v3 \<Longrightarrow>
   sum_on v1 v2 lo hi v3 ! i = (if lo \<le> int i \<and> int i < hi then v1 ! i + v2 ! i else v3 ! i)"
  by (simp add: sum_on_def)

lemma add_range_frame:
  assumes "add_range v1 v2 lo hi v3 = Some v3'"
  shows "length v3' = length v3 \<and> (\<forall>i < length v3. int i \<notin> {lo..<hi} \<longrightarrow> v3' ! i = v3 ! i)"
  using assms by (auto simp: add_range_char length_sum_on sum_on_nth split: if_splits)

lemma looped_passes_frame:
  assumes "looped_passes v1 v2 lo hi 0 k v3 = Some v3'"
  shows "length v3' = length v3 \<and> (\<forall>i < length v3. int i \<notin> {lo..<hi} \<longrightarrow> v3' ! i = v3 ! i)"
proof (cases "0 < k")
  case True
  with assms have "add_range v1 v2 lo hi v3 = Some v3'"
    by (simp add: looped_passes_eq)
  then show ?thesis by (rule add_range_frame)
next
  case False
  with assms have "v3' = v3"
    by (subst (asm) looped_passes.simps) simp
  then show ?thesis by simp
qed

lemma kernel_body_frame:
  assumes "kernel_body kern ID Nthreads v1 v2 v3 [nw, kw] = Some v3'"
  shows "length v3' = length v3 \<and>
    (\<forall>i < length v3. int i \<notin> item_range (sint nw) Nthreads ID \<longrightarrow> v3' ! i = v3 ! i)"
proof (cases kern)
  case Looped_add
  with assms show ?thesis
    unfolding item_range_def
    by (intro looped_passes_frame [where k = "sint kw"])
       (simp add: looped_add_def load_def split: if_splits)
next
  case Add
  with assms show ?thesis
    unfolding item_range_def
    by (intro add_range_frame) (simp add: add_def load_def split: if_splits)
qed

lemma main_issued:
  assumes "all_platforms env \<noteq> []" "1 < length (all_platforms env ! 0)"
    and "build env (all_platforms env ! 0 ! 1) = None"
  shows "\<exists>r. main env = Some r \<and> exit_code r = 0 \<and>
    issued (final_device r) =
     [CreateBuffer buffer_A 100000, CreateBuffer buffer_B 100000, CreateBuffer buffer_C 100000,
      CreateBuffer buffer_constants 2,
      WriteBuffer buffer_A True 0 100000, WriteBuffer buffer_B True 0 100000,
      WriteBuffer buffer_constants True 0 2,
      NDRangeKernel Looped_add [buffer_A, buffer_B, buffer_C, buffer_constants] 10,
      ReadBuffer buffer_C True 0 100000]
     @ [CreateBuffer buffer_A2 100000, CreateBuffer buffer_B2 100000, CreateBuffer buffer_C2 100000,
        CreateBuffer buffer_constants2 2]
     @ concat (replicate 1000
         [WriteBuffer buffer_A2 True 0 100000, WriteBuffer buffer_B2 True 0 100000,
          WriteBuffer buffer_constants2 True 0 2,
          NDRangeKernel Add [buffer_A2, buffer_B2, buffer_C2, buffer_constants2] 10])
     @ [ReadBuffer buffer_C2 True 0 100000]"
proof -
  from main_success [OF assms] obtain r where "main env = Some r" "exit_code r = 0"
    "issued (final_device r) =
       version1_commands main_n main_Nthreads @ version2_commands main_n main_k main_Nthreads"
    by auto
  then show ?thesis
    by (simp only: main_commands) simp
qed

lemma filter_concat_replicate_Nil:
  "filter P xs = [] \<Longrightarrow> filter P (concat (replicate m xs)) = []"
  by (induction m) simp_all

lemma set_concat_replicate: "set (concat (replicate m xs)) \<subseteq> set xs"
  by (induction m) auto

lemma at_most_one_not_exceeds: "at_most_one x \<Longrightarrow> \<not> exceeds_one x"
  by (cases x) simp_all

section \<open>The claims\<close>

text \<open>
  Claim C1: the array \<open>C\<close> the GPU paths of \<^verbatim>\<open>main\<close> produce equals, element for
  element, the array \<open>C\<close> that \<^verbatim>\<open>timeAddVectorsCPU\<close> computes on vectors of the same
  length. The two functions do not build the same vectors: \<^verbatim>\<open>timeAddVectorsCPU\<close> sets
  \<^verbatim>\<open>B[i] = n-i\<close>, \<^verbatim>\<open>main\<close> sets \<^verbatim>\<open>B[i] = n - i - 1\<close>. In every run that gets
  past the build, the array of \<^verbatim>\<open>timeAddVectorsCPU(n, k)\<close> holds 100000 in each of its
  100000 elements, and the array read back after either GPU path holds 99999 in each.
\<close>

theorem cpu_and_gpu_vectors_differ:
  assumes "all_platforms env \<noteq> []" "1 < length (all_platforms env ! 0)"
    and "build env (all_platforms env ! 0 ! 1) = None"
  shows "\<exists>r A B C. main env = Some r
      \<and> timeAddVectorsCPU_arrays (indeterminate env) main_n main_k = Some (A, B, C)
      \<and> C = replicate 100000 100000
      \<and> C_version1 r = replicate 100000 99999
      \<and> C_version2 r = replicate 100000 99999
      \<and> C_version1 r \<noteq> C \<and> C_version2 r \<noteq> C"
proof -
  from main_success [OF assms] obtain r where r: "main env = Some r"
    "C_version1 r = map2 (+) main_A main_B" "C_version2 r = map2 (+) main_A main_B"
    by auto
  have cpu: "timeAddVectorsCPU_arrays (indeterminate env) main_n main_k =
      Some (map (\<lambda>j. word_of_int (int j)) [0..<nat main_n],
            map (\<lambda>j. word_of_int (main_n - int j)) [0..<nat main_n],
            replicate (nat main_n) (word_of_int main_n))"
    by (rule timeAddVectorsCPU_arrays_result) (simp_all add: main_n_def main_k_def)
  have C: "replicate (nat main_n) (word_of_int main_n) = (replicate 100000 100000 :: cint list)"
    by (simp add: main_n_def)
  have "(replicate 100000 99999 :: cint list) \<noteq> replicate 100000 100000"
    by simp
  then show ?thesis
    using r cpu C main_sums_numeral by auto
qed

text \<open>The run of the example environment, at index 0.\<close>

theorem cpu_and_gpu_vectors_differ_witness:
  "\<exists>r A B. main example_environment = Some r
      \<and> timeAddVectorsCPU_arrays (\<lambda>i. 0) main_n main_k = Some (A, B, replicate 100000 100000)
      \<and> C_version1 r ! 0 = 99999 \<and> C_version2 r ! 0 = 99999"
proof -
  from cpu_and_gpu_vectors_differ [OF example_ok]
  obtain r A B C where "main example_environment = Some r"
    "timeAddVectorsCPU_arrays (indeterminate example_environment) main_n main_k = Some (A, B, C)"
    "C = replicate 100000 100000"
    "C_version1 r = replicate 100000 99999" "C_version2 r = replicate 100000 99999"
    by blast
  then show ?thesis
    by (simp add: example_environment_def)
qed

text \<open>
  Claim C2: under the launch configuration of \<^verbatim>\<open>main\<close> (\<open>n = 100000\<close>,
  \<open>Nthreads = 10\<close>, \<open>k = 1000\<close>) both kernels leave \<open>C[i] = A[i] + B[i]\<close> for every
  \<open>i\<close> in \<open>[0, n)\<close>. First for a launch of either kernel on any three vectors of length
  \<open>n\<close>: the launch returns, and its output holds the sums. Then for \<^verbatim>\<open>main\<close> itself:
  in every run in which the first platform has a second device and the build succeeds,
  \<^verbatim>\<open>main\<close> returns 0 and the array read back after each of the two paths holds
  \<open>A[i] + B[i]\<close> at every index.
\<close>

theorem gpu_elementwise_sum:
  "(length v1 = nat main_n \<longrightarrow> length v2 = nat main_n \<longrightarrow> length v3 = nat main_n \<longrightarrow>
      (\<exists>C. run_kernel kern main_Nthreads v1 v2 v3 main_constants = Some C
         \<and> length C = nat main_n
         \<and> (\<forall>i < nat main_n. C ! i = v1 ! i + v2 ! i)))
   \<and> (all_platforms env \<noteq> [] \<longrightarrow> 1 < length (all_platforms env ! 0) \<longrightarrow>
      build env (all_platforms env ! 0 ! 1) = None \<longrightarrow>
      (\<exists>r. main env = Some r \<and> exit_code r = 0
         \<and> length (host_A r) = nat main_n \<and> length (host_B r) = nat main_n
         \<and> length (C_version1 r) = nat main_n \<and> length (C_version2 r) = nat main_n
         \<and> (\<forall>i < nat main_n. C_version1 r ! i = host_A r ! i + host_B r ! i
                \<and> C_version2 r ! i = host_A r ! i + host_B r ! i)))"
proof (intro conjI impI)
  assume len: "length v1 = nat main_n" "length v2 = nat main_n" "length v3 = nat main_n"
  have cfg: "0 < main_Nthreads" "0 \<le> main_n" "main_Nthreads dvd main_n" "1 \<le> main_k"
    by (simp_all add: main_Nthreads_def main_n_def main_k_def)
  have "run_kernel Add main_Nthreads v1 v2 v3 main_constants = Some (map2 (+) v1 v2)"
    unfolding main_constants_def
    using cfg len by (intro run_kernel_sums) (simp_all add: sint_main_n)
  moreover have "run_kernel Looped_add main_Nthreads v1 v2 v3 main_constants =
      run_kernel Add main_Nthreads v1 v2 v3 main_constants"
    unfolding main_constants_def
    using cfg by (intro run_kernel_looped_eq) (simp add: sint_main_k)
  ultimately have "run_kernel kern main_Nthreads v1 v2 v3 main_constants = Some (map2 (+) v1 v2)"
    by (cases kern) simp_all
  then show "\<exists>C. run_kernel kern main_Nthreads v1 v2 v3 main_constants = Some C
         \<and> length C = nat main_n \<and> (\<forall>i < nat main_n. C ! i = v1 ! i + v2 ! i)"
    using len by simp
next
  assume "all_platforms env \<noteq> []" "1 < length (all_platforms env ! 0)"
    "build env (all_platforms env ! 0 ! 1) = None"
  from main_success [OF this] obtain r where r: "main env = Some r" "exit_code r = 0"
    "host_A r = main_A" "host_B r = main_B"
    "C_version1 r = map2 (+) main_A main_B" "C_version2 r = map2 (+) main_A main_B"
    by auto
  have len: "length main_A = nat main_n" "length main_B = nat main_n"
    by (simp_all add: main_A_def main_B_def)
  show "\<exists>r. main env = Some r \<and> exit_code r = 0
         \<and> length (host_A r) = nat main_n \<and> length (host_B r) = nat main_n
         \<and> length (C_version1 r) = nat main_n \<and> length (C_version2 r) = nat main_n
         \<and> (\<forall>i < nat main_n. C_version1 r ! i = host_A r ! i + host_B r ! i
                \<and> C_version2 r ! i = host_A r ! i + host_B r ! i)"
    using r len by auto
qed

text \<open>A launch of \<^verbatim>\<open>looped_add\<close> on constant vectors, and the run of the example environment.\<close>

theorem gpu_elementwise_sum_witness:
  "(\<exists>C. run_kernel Looped_add main_Nthreads (replicate 100000 1) (replicate 100000 2)
          (replicate 100000 0) main_constants = Some C \<and> C ! 5 = 3)
   \<and> (\<exists>r. main example_environment = Some r \<and> exit_code r = 0
          \<and> C_version1 r ! 7 = host_A r ! 7 + host_B r ! 7
          \<and> C_version2 r ! 7 = host_A r ! 7 + host_B r ! 7)"
proof -
  note inst = gpu_elementwise_sum [of "replicate 100000 1" "replicate 100000 2" "replicate 100000 0"
      Looped_add example_environment]
  have n: "nat main_n = 100000"
    by (simp add: main_n_def)
  from inst n obtain C where C:
    "run_kernel Looped_add main_Nthreads (replicate 100000 1) (replicate 100000 2)
          (replicate 100000 0) main_constants = Some C"
    "\<forall>i < 100000. C ! i = replicate 100000 1 ! i + replicate 100000 2 ! i"
    by auto
  from C(2) have "C ! 5 = 3" by simp
  moreover from inst n example_ok obtain r where
    "main example_environment = Some r" "exit_code r = 0"
    "\<forall>i < 100000. C_version1 r ! i = host_A r ! i + host_B r ! i
                \<and> C_version2 r ! i = host_A r ! i + host_B r ! i"
    by auto
  ultimately show ?thesis
    using C(1) by auto
qed

text \<open>
  Claim C3, with the cover as the code has it. Work-item \<open>ID\<close> of either kernel works
  on the index range \<open>[ratio * ID, ratio * (ID + 1))\<close> with \<open>ratio = n / Nthreads\<close>,
  and changes no element of \<open>v3\<close> outside it. For \<open>n \<ge> 1\<close> and \<open>Nthreads \<ge> 1\<close> the
  ranges of two different work-items are disjoint, every range has \<open>n div Nthreads\<close>
  elements, and the ranges of the work-items \<open>0, \<dots>, Nthreads - 1\<close> together are
  \<open>[0, (n div Nthreads) * Nthreads)\<close>; that is \<open>[0, n)\<close> exactly when \<open>Nthreads\<close>
  divides \<open>n\<close>.
\<close>

theorem work_item_ranges:
  assumes "1 \<le> n" "1 \<le> Nthreads"
  shows "(\<forall>ID ID'. ID \<noteq> ID' \<longrightarrow> item_range n Nthreads ID \<inter> item_range n Nthreads ID' = {})
    \<and> (\<forall>ID. card (item_range n Nthreads ID) = nat (n div Nthreads))
    \<and> ratio n Nthreads = n div Nthreads
    \<and> (\<Union>ID\<in>{0..<Nthreads}. item_range n Nthreads ID) = {0..<n div Nthreads * Nthreads}
    \<and> (((\<Union>ID\<in>{0..<Nthreads}. item_range n Nthreads ID) = {0..<n}) = (Nthreads dvd n))
    \<and> (\<forall>kern ID v1 v2 v3 v3' nw kw.
          sint nw = n \<longrightarrow> kernel_body kern ID Nthreads v1 v2 v3 [nw, kw] = Some v3' \<longrightarrow>
          length v3' = length v3 \<and>
          (\<forall>i < length v3. int i \<notin> item_range n Nthreads ID \<longrightarrow> v3' ! i = v3 ! i))"
proof -
  let ?r = "n div Nthreads"
  have r: "0 \<le> ?r"
    using assms by (simp add: pos_imp_zdiv_nonneg_iff)
  have range: "\<And>ID. item_range n Nthreads ID = {?r * ID ..< ?r * (ID + 1)}"
    using assms by (rule item_range_eq)
  have disjoint: "\<forall>ID ID'. ID \<noteq> ID' \<longrightarrow> item_range n Nthreads ID \<inter> item_range n Nthreads ID' = {}"
    unfolding range using blocks_disjoint [OF r] by blast
  have size: "\<forall>ID. card (item_range n Nthreads ID) = nat ?r"
    unfolding range by (simp only: block_card) simp
  have union: "(\<Union>ID\<in>{0..<Nthreads}. item_range n Nthreads ID) = {0..<?r * Nthreads}"
    unfolding range using r by (rule blocks_union)
  have cover: "((\<Union>ID\<in>{0..<Nthreads}. item_range n Nthreads ID) = {0..<n}) = (Nthreads dvd n)"
    unfolding union using assms by (rule cover_iff)
  have frame: "\<forall>kern ID v1 v2 v3 v3' nw kw.
          sint nw = n \<longrightarrow> kernel_body kern ID Nthreads v1 v2 v3 [nw, kw] = Some v3' \<longrightarrow>
          length v3' = length v3 \<and>
          (\<forall>i < length v3. int i \<notin> item_range n Nthreads ID \<longrightarrow> v3' ! i = v3 ! i)"
    using kernel_body_frame by blast
  show ?thesis
    using disjoint size union cover frame ratio_pos [OF assms] by blast
qed

text \<open>Four elements and two work-items: work-item 1 of \<^verbatim>\<open>add\<close> works on \<open>[2, 4)\<close>.\<close>

theorem work_item_ranges_witness:
  "(1::int) \<le> 4 \<and> (1::int) \<le> 2
    \<and> item_range 4 2 0 \<inter> item_range 4 2 1 = {}
    \<and> card (item_range 4 2 1) = 2
    \<and> (\<Union>ID\<in>{0..<2}. item_range 4 2 ID) = {0..<4}
    \<and> add 1 2 [1, 2, 3, 4] [10, 20, 30, 40] [7, 7, 7, 7] [4, 1] = Some [7, 7, 33, 44]
    \<and> (0::int) \<notin> item_range 4 2 1"
proof -
  have pre: "(1::int) \<le> 4" "(1::int) \<le> 2" by simp_all
  note inst = work_item_ranges [OF pre]
  have run: "add 1 2 [1, 2, 3, 4] [10, 20, 30, 40] [7, 7, 7, 7] [4, 1] = Some [7, 7, 33, 44]"
    by (simp add: add_def load_def store_def start_def stop_def ratio_def cdiv_def add_range.simps)
  have "item_range 4 2 0 \<inter> item_range 4 2 1 = {}"
    using inst by simp
  moreover have "card (item_range 4 2 1) = 2"
    using inst by simp
  moreover have "(\<Union>ID\<in>{0..<2}. item_range 4 2 ID) = {0..<4}"
    using inst by simp
  moreover have "(0::int) \<notin> item_range 4 2 1"
    by (simp add: item_range_def start_def stop_def ratio_def cdiv_def)
  ultimately show ?thesis
    using run by simp
qed

text \<open>
  The claim as it was stated has the ranges cover \<open>[0, n)\<close> for every \<open>n\<close>. With
  \<open>n = 7\<close> and two work-items the ranges are \<open>[0, 3)\<close> and \<open>[3, 6)\<close>: index 6 is in
  neither.
\<close>

theorem work_item_ranges_counterexample:
  "(\<Union>ID\<in>{0..<2}. item_range 7 2 ID) \<noteq> {0..<7}"
proof -
  have "(\<Union>ID\<in>{0..<2}. item_range 7 2 ID) = {0..<7 div 2 * 2}"
    using item_range_eq [of 7 2] blocks_union [of "7 div 2" 2] by simp
  moreover have "(6::int) \<in> {0..<7}" "(6::int) \<notin> {0..<7 div 2 * 2}"
    by simp_all
  ultimately show ?thesis by metis
qed

text \<open>
  Claim C4: \<^verbatim>\<open>main\<close> exits with code 1 exactly when no platform is found, no device
  is found or the build fails, and returns 0 in every other run. A run in which the first
  platform reports one device is such an other run: a platform is found, a device is found,
  and no build fails. There \<^verbatim>\<open>main\<close> reads \<^verbatim>\<open>all_devices[1]\<close> outside the device
  list, and the run has no defined exit code.
\<close>

theorem single_device_run_has_no_exit_code:
  "all_platforms single_device_environment \<noteq> []
    \<and> all_platforms single_device_environment ! 0 \<noteq> []
    \<and> (\<forall>dev. build single_device_environment dev = None)
    \<and> main single_device_environment = None"
  by (simp add: single_device_environment_def example_environment_def main_def)

text \<open>
  Claim C5, with the allocations of the second path as the code has them. In every run
  that gets past the build, \<^verbatim>\<open>main\<close> issues these commands, in this order: for the
  first path four buffer creations, the writes of \<open>A\<close>, \<open>B\<close> and the constants, one
  launch of \<^verbatim>\<open>looped_add\<close> and one read; for the second path four buffer creations,
  then \<open>k = 1000\<close> times the writes of \<open>A\<close>, \<open>B\<close> and the constants followed by a
  launch of \<^verbatim>\<open>add\<close>, then one read. Under the constants of \<^verbatim>\<open>main\<close> a work-item
  of \<^verbatim>\<open>looped_add\<close> is \<open>k\<close> passes of the inner loop.
\<close>

theorem timed_paths_commands:
  assumes "all_platforms env \<noteq> []" "1 < length (all_platforms env ! 0)"
    and "build env (all_platforms env ! 0 ! 1) = None"
  shows "(\<exists>r. main env = Some r \<and>
    issued (final_device r) =
     [CreateBuffer buffer_A 100000, CreateBuffer buffer_B 100000, CreateBuffer buffer_C 100000,
      CreateBuffer buffer_constants 2,
      WriteBuffer buffer_A True 0 100000, WriteBuffer buffer_B True 0 100000,
      WriteBuffer buffer_constants True 0 2,
      NDRangeKernel Looped_add [buffer_A, buffer_B, buffer_C, buffer_constants] 10,
      ReadBuffer buffer_C True 0 100000]
     @ [CreateBuffer buffer_A2 100000, CreateBuffer buffer_B2 100000, CreateBuffer buffer_C2 100000,
        CreateBuffer buffer_constants2 2]
     @ concat (replicate 1000
         [WriteBuffer buffer_A2 True 0 100000, WriteBuffer buffer_B2 True 0 100000,
          WriteBuffer buffer_constants2 True 0 2,
          NDRangeKernel Add [buffer_A2, buffer_B2, buffer_C2, buffer_constants2] 10])
     @ [ReadBuffer buffer_C2 True 0 100000])
    \<and> looped_add ID main_Nthreads v1 v2 v3 main_constants =
        looped_passes v1 v2 (start main_n main_Nthreads ID) (stop main_n main_Nthreads ID) 0 main_k v3"
proof -
  have "looped_add ID main_Nthreads v1 v2 v3 main_constants =
        looped_passes v1 v2 (start main_n main_Nthreads ID) (stop main_n main_Nthreads ID) 0 main_k v3"
    by (simp add: looped_add_def load_def main_constants_def sint_main_n sint_main_k)
       (simp add: main_Nthreads_def)
  with main_issued [OF assms] show ?thesis
    by blast
qed

text \<open>The run of the example environment issues 4014 commands; the first nine are the first path.\<close>

theorem timed_paths_commands_witness:
  "\<exists>r. main example_environment = Some r
     \<and> take 9 (issued (final_device r)) =
         [CreateBuffer buffer_A 100000, CreateBuffer buffer_B 100000, CreateBuffer buffer_C 100000,
          CreateBuffer buffer_constants 2,
          WriteBuffer buffer_A True 0 100000, WriteBuffer buffer_B True 0 100000,
          WriteBuffer buffer_constants True 0 2,
          NDRangeKernel Looped_add [buffer_A, buffer_B, buffer_C, buffer_constants] 10,
          ReadBuffer buffer_C True 0 100000]
     \<and> length (issued (final_device r)) = 4014"
proof -
  from timed_paths_commands [OF example_ok] obtain r where
    "main example_environment = Some r"
    "issued (final_device r) =
     [CreateBuffer buffer_A 100000, CreateBuffer buffer_B 100000, CreateBuffer buffer_C 100000,
      CreateBuffer buffer_constants 2,
      WriteBuffer buffer_A True 0 100000, WriteBuffer buffer_B True 0 100000,
      WriteBuffer buffer_constants True 0 2,
      NDRangeKernel Looped_add [buffer_A, buffer_B, buffer_C, buffer_constants] 10,
      ReadBuffer buffer_C True 0 100000]
     @ [CreateBuffer buffer_A2 100000, CreateBuffer buffer_B2 100000, CreateBuffer buffer_C2 100000,
        CreateBuffer buffer_constants2 2]
     @ concat (replicate 1000
         [WriteBuffer buffer_A2 True 0 100000, WriteBuffer buffer_B2 True 0 100000,
          WriteBuffer buffer_constants2 True 0 2,
          NDRangeKernel Add [buffer_A2, buffer_B2, buffer_C2, buffer_constants2] 10])
     @ [ReadBuffer buffer_C2 True 0 100000]"
    by blast
  then show ?thesis
    by (simp add: length_concat sum_list_replicate)
qed

text \<open>
  The claim as it was stated has the second path allocate its buffers again on each of its
  \<open>k\<close> iterations. In the run of the example environment \<open>k = 1000\<close>, and each of the
  buffers for \<open>A\<close>, \<open>B\<close> and the constants is created once.
\<close>

theorem second_path_allocates_once:
  "\<exists>r. main example_environment = Some r
     \<and> main_k = 1000
     \<and> length (filter (allocates buffer_A2) (issued (final_device r))) = 1
     \<and> length (filter (allocates buffer_B2) (issued (final_device r))) = 1
     \<and> length (filter (allocates buffer_constants2) (issued (final_device r))) = 1"
proof -
  from main_issued [OF example_ok] obtain r where r: "main example_environment = Some r"
    "issued (final_device r) =
     [CreateBuffer buffer_A 100000, CreateBuffer buffer_B 100000, CreateBuffer buffer_C 100000,
      CreateBuffer buffer_constants 2,
      WriteBuffer buffer_A True 0 100000, WriteBuffer buffer_B True 0 100000,
      WriteBuffer buffer_constants True 0 2,
      NDRangeKernel Looped_add [buffer_A, buffer_B, buffer_C, buffer_constants] 10,
      ReadBuffer buffer_C True 0 100000]
     @ [CreateBuffer buffer_A2 100000, CreateBuffer buffer_B2 100000, CreateBuffer buffer_C2 100000,
        CreateBuffer buffer_constants2 2]
     @ concat (replicate 1000
         [WriteBuffer buffer_A2 True 0 100000, WriteBuffer buffer_B2 True 0 100000,
          WriteBuffer buffer_constants2 True 0 2,
          NDRangeKernel Add [buffer_A2, buffer_B2, buffer_C2, buffer_constants2] 10])
     @ [ReadBuffer buffer_C2 True 0 100000]"
    by blast
  show ?thesis
    using r(1) by (simp add: r(2) filter_concat_replicate_Nil main_k_def)
qed

text \<open>
  Claim C6: once the guard \<^verbatim>\<open>all_devices.size()==0\<close> has been passed, the access
  \<^verbatim>\<open>all_devices[1]\<close> is inside the device list. With a device list of one element the
  guard is passed (the length is not 0), index 1 is not below the length, and
  \<^verbatim>\<open>main\<close> has no defined result.
\<close>

theorem device_guard_allows_one_device:
  assumes "all_platforms env \<noteq> []" "length (all_platforms env ! 0) = 1"
  shows "length (all_platforms env ! 0) \<noteq> 0
    \<and> \<not> 1 < length (all_platforms env ! 0)
    \<and> main env = None"
  using assms main_single_device [OF assms] by simp

text \<open>The environment with one device.\<close>

theorem device_guard_allows_one_device_witness:
  "all_platforms single_device_environment = [[''CPU'']]
    \<and> length (all_platforms single_device_environment ! 0) = 1
    \<and> main single_device_environment = None"
proof -
  have pre: "all_platforms single_device_environment \<noteq> []"
    "length (all_platforms single_device_environment ! 0) = 1"
    by (simp_all add: single_device_environment_def example_environment_def)
  from device_guard_allows_one_device [OF pre] show ?thesis
    by (simp add: single_device_environment_def example_environment_def)
qed



text \<open>
  Claim C8: for each of the two versions \<^verbatim>\<open>main\<close> prints the CPU time, the GPU time
  of the version and the ratio \<open>time_ratio = CPUtime / GPUtime\<close>, followed by
  \<^verbatim>\<open>" times faster!"\<close> when \<open>time_ratio > 1\<close> and by \<^verbatim>\<open>" times slower :("\<close>
  otherwise, in particular whenever \<open>time_ratio \<le> 1\<close>.
\<close>

theorem report_of_both_versions:
  assumes "all_platforms env \<noteq> []" "1 < length (all_platforms env ! 0)"
    and "build env (all_platforms env ! 0 ! 1) = None"
  shows "\<exists>r CPUtime ratio1 ratio2 verdict1 verdict2.
      main env = Some r
    \<and> CPUtime = to_float env (CPU_duration env)
    \<and> ratio1 = quotient env CPUtime (GPU_duration1 env)
    \<and> ratio2 = quotient env CPUtime (GPU_duration2 env)
    \<and> stdout r =
        [Text ''VERSION 1 -----------'', Endl,
         Text ''CPU time: '', Number CPUtime, Endl,
         Text ''GPU time: '', Number (GPU_duration1 env), Endl,
         Text ''GPU is '', Number ratio1, Text verdict1, Endl,
         Text (CHR 0x0A # ''VERSION 2 -----------''), Endl,
         Text ''CPU time: '', Number CPUtime, Endl,
         Text ''GPU time: '', Number (GPU_duration2 env), Endl,
         Text ''GPU is '', Number ratio2, Text verdict2, Endl]
    \<and> verdict1 = (if exceeds_one ratio1 then '' times faster!'' else '' times slower :('')
    \<and> verdict2 = (if exceeds_one ratio2 then '' times faster!'' else '' times slower :('')
    \<and> (at_most_one ratio1 \<longrightarrow> verdict1 = '' times slower :('')
    \<and> (at_most_one ratio2 \<longrightarrow> verdict2 = '' times slower :('')"
proof -
  let ?CPUtime = "to_float env (CPU_duration env)"
  from main_success [OF assms] obtain r where r: "main env = Some r"
    "stdout r = report env ''VERSION 1 -----------'' ?CPUtime (GPU_duration1 env)
              @ report env (CHR 0x0A # ''VERSION 2 -----------'') ?CPUtime (GPU_duration2 env)"
    by auto
  show ?thesis
    using r at_most_one_not_exceeds [of "quotient env ?CPUtime (GPU_duration1 env)"]
      at_most_one_not_exceeds [of "quotient env ?CPUtime (GPU_duration2 env)"]
    by (simp add: report_def Let_def)
qed

text \<open>
  The run of the example environment: the first version is twice as fast as the CPU, the
  second half as fast.
\<close>

theorem report_of_both_versions_witness:
  "\<exists>r. main example_environment = Some r
    \<and> exceeds_one (Finite 2) \<and> at_most_one (Finite (1 / 2))
    \<and> stdout r =
        [Text ''VERSION 1 -----------'', Endl,
         Text ''CPU time: '', Number (Finite 2), Endl,
         Text ''GPU time: '', Number (Finite 1), Endl,
         Text ''GPU is '', Number (Finite 2), Text '' times faster!'', Endl,
         Text (CHR 0x0A # ''VERSION 2 -----------''), Endl,
         Text ''CPU time: '', Number (Finite 2), Endl,
         Text ''GPU time: '', Number (Finite 4), Endl,
         Text ''GPU is '', Number (Finite (1 / 2)), Text '' times slower :('', Endl]"
proof -
  from report_of_both_versions [OF example_ok] obtain r CPUtime ratio1 ratio2 verdict1 verdict2
    where "main example_environment = Some r"
      "CPUtime = to_float example_environment (CPU_duration example_environment)"
      "ratio1 = quotient example_environment CPUtime (GPU_duration1 example_environment)"
      "ratio2 = quotient example_environment CPUtime (GPU_duration2 example_environment)"
      "stdout r =
        [Text ''VERSION 1 -----------'', Endl,
         Text ''CPU time: '', Number CPUtime, Endl,
         Text ''GPU time: '', Number (GPU_duration1 example_environment), Endl,
         Text ''GPU is '', Number ratio1, Text verdict1, Endl,
         Text (CHR 0x0A # ''VERSION 2 -----------''), Endl,
         Text ''CPU time: '', Number CPUtime, Endl,
         Text ''GPU time: '', Number (GPU_duration2 example_environment), Endl,
         Text ''GPU is '', Number ratio2, Text verdict2, Endl]"
      "verdict1 = (if exceeds_one ratio1 then '' times faster!'' else '' times slower :('')"
      "verdict2 = (if exceeds_one ratio2 then '' times faster!'' else '' times slower :('')"
    by blast
  then show ?thesis
    by (simp add: example_environment_def)
qed

text \<open>
  Claim C9, with the kernel launches as the code has them. In every run that gets past
  the build, every buffer write and every buffer read \<^verbatim>\<open>main\<close> issues passes the
  blocking flag \<^verbatim>\<open>CL_TRUE\<close>, and every kernel launch is issued without a blocking
  flag.
\<close>

theorem transfers_block_launches_carry_no_flag:
  assumes "all_platforms env \<noteq> []" "1 < length (all_platforms env ! 0)"
    and "build env (all_platforms env ! 0 ! 1) = None"
  shows "\<exists>r. main env = Some r \<and>
    (\<forall>c \<in> set (issued (final_device r)).
       (transfer c \<longrightarrow> blocking_flag c = Some True) \<and> (launch c \<longrightarrow> blocking_flag c = None))"
proof -
  from main_issued [OF assms] obtain r where r: "main env = Some r"
    "issued (final_device r) =
     [CreateBuffer buffer_A 100000, CreateBuffer buffer_B 100000, CreateBuffer buffer_C 100000,
      CreateBuffer buffer_constants 2,
      WriteBuffer buffer_A True 0 100000, WriteBuffer buffer_B True 0 100000,
      WriteBuffer buffer_constants True 0 2,
      NDRangeKernel Looped_add [buffer_A, buffer_B, buffer_C, buffer_constants] 10,
      ReadBuffer buffer_C True 0 100000]
     @ [CreateBuffer buffer_A2 100000, CreateBuffer buffer_B2 100000, CreateBuffer buffer_C2 100000,
        CreateBuffer buffer_constants2 2]
     @ concat (replicate 1000
         [WriteBuffer buffer_A2 True 0 100000, WriteBuffer buffer_B2 True 0 100000,
          WriteBuffer buffer_constants2 True 0 2,
          NDRangeKernel Add [buffer_A2, buffer_B2, buffer_C2, buffer_constants2] 10])
     @ [ReadBuffer buffer_C2 True 0 100000]"
    by blast
  have "\<forall>c \<in> set (issued (final_device r)).
       (transfer c \<longrightarrow> blocking_flag c = Some True) \<and> (launch c \<longrightarrow> blocking_flag c = None)"
    unfolding r(2)
    using set_concat_replicate [of 1000
         "[WriteBuffer buffer_A2 True 0 100000, WriteBuffer buffer_B2 True 0 100000,
          WriteBuffer buffer_constants2 True 0 2,
          NDRangeKernel Add [buffer_A2, buffer_B2, buffer_C2, buffer_constants2] 10]"]
    by auto
  with r(1) show ?thesis by blast
qed

text \<open>The first write and the first launch of the run of the example environment.\<close>

theorem transfers_block_launches_carry_no_flag_witness:
  "\<exists>r. main example_environment = Some r
     \<and> WriteBuffer buffer_A True 0 100000 \<in> set (issued (final_device r))
     \<and> transfer (WriteBuffer buffer_A True 0 100000)
     \<and> blocking_flag (WriteBuffer buffer_A True 0 100000) = Some True
     \<and> NDRangeKernel Looped_add [buffer_A, buffer_B, buffer_C, buffer_constants] 10
          \<in> set (issued (final_device r))
     \<and> launch (NDRangeKernel Looped_add [buffer_A, buffer_B, buffer_C, buffer_constants] 10)
     \<and> blocking_flag (NDRangeKernel Looped_add [buffer_A, buffer_B, buffer_C, buffer_constants] 10) = None"
proof -
  from transfers_block_launches_carry_no_flag [OF example_ok] obtain r where
    r: "main example_environment = Some r"
    "\<forall>c \<in> set (issued (final_device r)).
       (transfer c \<longrightarrow> blocking_flag c = Some True) \<and> (launch c \<longrightarrow> blocking_flag c = None)"
    by blast
  from main_issued [OF example_ok] r(1) have
    "WriteBuffer buffer_A True 0 100000 \<in> set (issued (final_device r))"
    "NDRangeKernel Looped_add [buffer_A, buffer_B, buffer_C, buffer_constants] 10
       \<in> set (issued (final_device r))"
    by auto
  with r show ?thesis by auto
qed

text \<open>
  The claim as it was stated has every operation on the queue, the kernel launches
  included, pass a blocking flag. The launch of \<^verbatim>\<open>looped_add\<close> in the run of the
  example environment passes none.
\<close>

theorem kernel_launch_passes_no_blocking_flag:
  "\<exists>r c. main example_environment = Some r
     \<and> c \<in> set (issued (final_device r))
     \<and> queue_operation c
     \<and> blocking_flag c \<noteq> Some True"
proof -
  from main_issued [OF example_ok] obtain r where "main example_environment = Some r"
    "NDRangeKernel Looped_add [buffer_A, buffer_B, buffer_C, buffer_constants] 10
       \<in> set (issued (final_device r))"
    by auto
  moreover have "queue_operation (NDRangeKernel Looped_add [buffer_A, buffer_B, buffer_C, buffer_constants] 10)"
    "blocking_flag (NDRangeKernel Looped_add [buffer_A, buffer_B, buffer_C, buffer_constants] 10) \<noteq> Some True"
    by simp_all
  ultimately show ?thesis by blast
qed


end
